theory Spec2Isabelle
  imports Main "HOL-Library.Sublist"
begin

unbundle bit_operations_syntax

section \<open>rewritefs: the path rewriting engine of rewrite.c\<close>

text \<open>
  A shallow embedding of \<^verbatim>\<open>src/rewrite.c\<close>. C strings are \<open>string\<close>s (the bytes
  before the terminating NUL), the chained lists of contexts and rules are HOL lists,
  \<^verbatim>\<open>stderr\<close> is a list of events (one per \<^verbatim>\<open>fprintf\<close>), the operating system is a
  record of operations over a world of any type, and \<^verbatim>\<open>assert\<close>/\<^verbatim>\<open>exit\<close> are
  error values. Buffer growth (\<^verbatim>\<open>string_append\<close>'s doubling) and allocation failure are
  not modelled.
\<close>

subsection \<open>Characters and decimal numbers\<close>

definition backslash :: char where
  "backslash = CHR 0x5C"

definition NUL :: char where
  "NUL = CHR 0x00"

definition newline :: char where
  "newline = CHR 0x0A"

definition digit_char :: "nat \<Rightarrow> char" where
  "digit_char d = char_of (48 + d)"

text \<open>What \<^verbatim>\<open>printf("%d")\<close> prints for a number that is not negative.\<close>

function decimal :: "nat \<Rightarrow> string" where
  "decimal n = (if n < 10 then [digit_char n] else decimal (n div 10) @ [digit_char (n mod 10)])"
  by pat_completeness auto
termination
  by (relation "measure (\<lambda>n. n)") auto

declare decimal.simps [simp del]

definition show_int :: "int \<Rightarrow> string" where
  "show_int i = (if i < 0 then CHR ''-'' # decimal (nat (- i)) else decimal (nat i))"

subsection \<open>The regular expression engine (libpcre), as the code uses it\<close>

text \<open>
  libpcre is not part of the repository. A compiled pattern (\<^verbatim>\<open>pcre *regexp\<close> with its
  \<^verbatim>\<open>pcre_extra\<close>) is represented by what \<^verbatim>\<open>pcre_exec\<close> computes with it on a subject:
  no match, an internal error (error number \<open>n\<close> stands for the return code \<open>- 2 - n\<close>,
  the codes below \<^verbatim>\<open>PCRE_ERROR_NOMATCH\<close>), or a match with the offsets of the whole
  match and of the groups up to the last one that took part (a group before it that did
  not take part has the offsets \<open>(-1, -1)\<close>).
\<close>

datatype match_result =
    NoMatch
  | EngineError nat
  | Matched "int \<times> int" "(int \<times> int) list"

record regexp =
  matcher :: "string \<Rightarrow> match_result"
  captures :: nat
  raw :: string

definition PCRE_ERROR_NOMATCH :: int where
  "PCRE_ERROR_NOMATCH = - 1"

definition PCRE_ERROR_NOSUBSTRING :: int where
  "PCRE_ERROR_NOSUBSTRING = - 7"

text \<open>
  \<^verbatim>\<open>pcre_exec(re->regexp, re->extra, subject, strlen(subject), 0, 0, ovector, ovecsize)\<close>:
  the return code and the offset vector after the call (it was zeroed by \<^verbatim>\<open>calloc\<close>,
  or is empty for the calls with \<^verbatim>\<open>NULL, 0\<close>). Two thirds of the vector hold offset
  pairs; when the pairs do not fit, the code is 0.
\<close>

definition pcre_exec :: "regexp \<Rightarrow> string \<Rightarrow> nat \<Rightarrow> int \<times> int list" where
  "pcre_exec re subject ovecsize =
     (case matcher re subject of
        NoMatch \<Rightarrow> (PCRE_ERROR_NOMATCH, replicate ovecsize 0)
      | EngineError n \<Rightarrow> (- 2 - int n, replicate ovecsize 0)
      | Matched whole groups \<Rightarrow>
          (let room = ovecsize div 3;
               flat = concat (map (\<lambda>(s, e). [s, e]) (take room (whole # groups)))
           in (if length (whole # groups) \<le> room then int (length (whole # groups)) else 0,
               flat @ replicate (ovecsize - length flat) 0)))"

text \<open>
  \<^verbatim>\<open>pcre_get_substring(subject, ovector, stringcount, stringnumber, &substr)\<close>: the
  length it returns (or \<^verbatim>\<open>PCRE_ERROR_NOSUBSTRING\<close>) and the substring.
\<close>

definition pcre_get_substring :: "string \<Rightarrow> int list \<Rightarrow> int \<Rightarrow> int \<Rightarrow> int \<times> string" where
  "pcre_get_substring subject ovector stringcount stringnumber =
     (if stringnumber < 0 \<or> stringnumber \<ge> stringcount then (PCRE_ERROR_NOSUBSTRING, [])
      else (let s = ovector ! nat (2 * stringnumber);
                e = ovector ! nat (2 * stringnumber + 1)
            in (e - s, take (nat (e - s)) (drop (nat s) subject))))"

subsection \<open>Types of rewrite.c\<close>

record rewrite_rule =
  filename_regexp :: regexp
  rewritten_path :: "string option" \<comment> \<open>\<open>None\<close> for \<^verbatim>\<open>"."\<close> (\<^verbatim>\<open>NULL\<close> in C)\<close>

record rewrite_context =
  cmdline :: "regexp option" \<comment> \<open>\<open>None\<close> for all contexts\<close>
  rules :: "rewrite_rule list"

record config =
  config_file :: "string option"
  orig_fs :: string
  mount_point :: string
  contexts :: "rewrite_context list"
  verbose :: int
  autocreate :: bool

text \<open>What \<^verbatim>\<open>fuse_get_context()\<close> gives about the request.\<close>

record fuse_context =
  pid :: int
  uid :: nat
  gid :: nat

datatype error =
    Assertion_failed \<comment> \<open>\<^verbatim>\<open>assert\<close> fails: \<^verbatim>\<open>abort()\<close>\<close>

text \<open>The lines written to \<^verbatim>\<open>stderr\<close>, one constructor per \<^verbatim>\<open>fprintf\<close>/\<^verbatim>\<open>perror\<close>.\<close>

datatype event =
    Table_context string \<comment> \<open>\<^verbatim>\<open>"CTX \"%s\":\n"\<close>\<close>
  | Table_rule string string \<comment> \<open>\<^verbatim>\<open>"  \"%s\" -> \"%s\"\n"\<close>\<close>
  | Request string \<comment> \<open>\<^verbatim>\<open>"%s:\n"\<close>\<close>
  | Warning_pcre_exec int \<comment> \<open>\<^verbatim>\<open>"WARNING: pcre_exec returned %d\n"\<close>\<close>
  | Ctx_nomatch string
  | Ctx_ok string
  | Ctx_default
  | Rule_nomatch string
  | Rule_ok string string
  | Ignored string string \<comment> \<open>\<^verbatim>\<open>"  (ignored) %s -> %s\n"\<close>\<close>
  | Blank_line
  | Show_orig_fs string
  | Show_begin string
  | Show_rewritten string
  | Show_end string
  | Warning_set_euid
  | Warning_set_egid
  | Warning_autocreate string string
  | Warning_restore_euid
  | Warning_restore_egid
  | Rewritten string string \<comment> \<open>\<^verbatim>\<open>"  %s -> %s\n"\<close>\<close>

text \<open>The macro \<^verbatim>\<open>DEBUG(lvl, x...)\<close>.\<close>

definition DEBUG :: "config \<Rightarrow> int \<Rightarrow> event \<Rightarrow> event list" where
  "DEBUG cfg lvl x = (if verbose cfg \<ge> lvl then [x] else [])"

text \<open>
  The system calls of the code, over a world \<open>'w\<close>: \<open>os_canonicalize_file_name\<close> returns
  \<open>None\<close> for \<^verbatim>\<open>NULL\<close>; \<open>os_fopen\<close> is \<^verbatim>\<open>fopen(path, "r")\<close> followed by reading to the
  end (\<open>None\<close> when \<^verbatim>\<open>fopen\<close> returns \<^verbatim>\<open>NULL\<close>); the others return the call's result and
  the world after it. \<^verbatim>\<open>mkdir_parents\<close> is declared in
  \<^verbatim>\<open>util.h\<close>.
\<close>

record 'w os =
  os_canonicalize_file_name :: "string \<Rightarrow> 'w \<Rightarrow> string option"
  os_fopen :: "string \<Rightarrow> 'w \<Rightarrow> string option"
  os_geteuid :: "'w \<Rightarrow> nat"
  os_getegid :: "'w \<Rightarrow> nat"
  os_seteuid :: "nat \<Rightarrow> 'w \<Rightarrow> int \<times> 'w"
  os_setegid :: "nat \<Rightarrow> 'w \<Rightarrow> int \<times> 'w"
  os_mkdir_parents :: "string \<Rightarrow> nat \<Rightarrow> 'w \<Rightarrow> int \<times> 'w"

subsection \<open>Config-file parsing\<close>

text \<open>
  The ways in which the parser ends the process with \<^verbatim>\<open>exit(1)\<close>, and one undefined
  behaviour: \<^verbatim>\<open>parse_string\<close> decrements \<^verbatim>\<open>string_size\<close> when it is 0, and the next
  \<^verbatim>\<open>string_append\<close> writes before the buffer.
\<close>

datatype parse_error =
    Unexpected_EOF
  | Unexpected_character int
  | Unknown_flag int
  | Invalid_regular_expression string string
  | Cannot_compile_regular_expression string string
  | Write_before_buffer

text \<open>
  The file is the list of the bytes not yet read. \<^verbatim>\<open>getc\<close> returns the byte as an
  \<^verbatim>\<open>int\<close> in 0..255, or \<^verbatim>\<open>EOF\<close>; \<open>isspace\<close> is that of the C locale; \<open>to_char\<close> is the
  conversion of an \<^verbatim>\<open>int\<close> to \<^verbatim>\<open>char\<close>, a signed byte as on x86 Linux; \<open>c_str\<close> is what
  a buffer holds as a C string, its bytes before the first NUL.
\<close>

definition EOF :: int where
  "EOF = - 1"

fun getc :: "string \<Rightarrow> int \<times> string" where
  "getc [] = (EOF, [])"
| "getc (c # fd) = (of_char c, fd)"

definition isspace :: "int \<Rightarrow> bool" where
  "isspace c = (c = 32 \<or> (9 \<le> c \<and> c \<le> 13))"

definition to_char :: "int \<Rightarrow> int" where
  "to_char c = (let m = c mod 256 in if m < 128 then m else m - 256)"

definition c_str :: "string \<Rightarrow> string" where
  "c_str s = takeWhile (\<lambda>c. c \<noteq> NUL) s"

text \<open>
  \<^verbatim>\<open>parse_blanks\<close> and \<^verbatim>\<open>parse_comment\<close>: the bytes left after the call.
\<close>

fun parse_blanks :: "string \<Rightarrow> string" where
  "parse_blanks [] = []"
| "parse_blanks (c # fd) = (if isspace (of_char c) then parse_blanks fd else c # fd)"

fun parse_comment :: "string \<Rightarrow> string" where
  "parse_comment [] = []"
| "parse_comment (c # fd) = (if c \<noteq> newline then parse_comment fd else fd)"

text \<open>
  \<^verbatim>\<open>parse_string(fd, &string, sep)\<close>: the loop with its variables \<^verbatim>\<open>escaped\<close> and
  \<^verbatim>\<open>string\<close>, returning the string and the bytes left. \<^verbatim>\<open>escaped\<close> is updated from the
  byte just read before the test \<^verbatim>\<open>c == sep\<close> looks at it.
\<close>

fun parse_string_loop :: "string \<Rightarrow> int \<Rightarrow> bool \<Rightarrow> string \<Rightarrow> parse_error + string \<times> string" where
  "parse_string_loop [] sep escaped str = Inl Unexpected_EOF"
| "parse_string_loop (c # fd) sep escaped str =
     (let escaped' = (if c = backslash then \<not> escaped else False)
      in if of_char c = sep then
           (if escaped' then
              (if str = [] then Inl Write_before_buffer
               else parse_string_loop fd sep escaped' (butlast str @ [c]))
            else Inr (str, fd))
         else parse_string_loop fd sep escaped' (str @ [c]))"

definition parse_string :: "string \<Rightarrow> int \<Rightarrow> parse_error + string \<times> string" where
  "parse_string fd sep = parse_string_loop fd sep False []"

text \<open>
  The option bits of \<^verbatim>\<open>pcre.h\<close>, and the loop "Get flags" of \<^verbatim>\<open>parse_regexp\<close>, which ends
  at the first blank byte and consumes it.
\<close>

definition PCRE_CASELESS :: int where "PCRE_CASELESS = 0x00000001"
definition PCRE_EXTENDED :: int where "PCRE_EXTENDED = 0x00000008"
definition PCRE_UTF8 :: int where "PCRE_UTF8 = 0x00000800"
definition PCRE_UCP :: int where "PCRE_UCP = 0x20000000"

fun parse_flags :: "string \<Rightarrow> int \<Rightarrow> parse_error + int \<times> string" where
  "parse_flags [] regexp_flags = Inl Unexpected_EOF"
| "parse_flags (c # fd) regexp_flags =
     (if isspace (of_char c) then Inr (regexp_flags, fd)
      else if c = CHR ''i'' then parse_flags fd (regexp_flags OR PCRE_CASELESS)
      else if c = CHR ''x'' then parse_flags fd (regexp_flags OR PCRE_EXTENDED)
      else if c = CHR ''u'' then parse_flags fd (regexp_flags OR (PCRE_UCP OR PCRE_UTF8))
      else Inl (Unknown_flag (of_char c)))"

text \<open>
  \<^verbatim>\<open>pcre_compile\<close> followed by \<^verbatim>\<open>pcre_study\<close> and \<^verbatim>\<open>pcre_fullinfo\<close>, which libpcre
  provides: on a pattern and option bits, an error of either with its message, or the
  compiled pattern (what it matches) with its number of groups.
\<close>

datatype compiled =
    Compile_error string
  | Study_error string
  | Compiled "string \<Rightarrow> match_result" nat

type_synonym compiler = "string \<Rightarrow> int \<Rightarrow> compiled"

text \<open>
  \<^verbatim>\<open>parse_regexp(fd, &regexp, sep)\<close>: first the block "Determine separator", then the
  body, the flags and the compilation.
\<close>

definition determine_separator :: "string \<Rightarrow> int \<Rightarrow> parse_error + int \<times> string" where
  "determine_separator fd sep =
     (if sep = 0 then
        (case getc fd of
           (c, fd1) \<Rightarrow>
             if to_char c = of_char (CHR ''m'') then
               (case getc fd1 of (c2, fd2) \<Rightarrow> Inr (to_char c2, fd2))
             else if to_char c \<noteq> of_char (CHR ''/'') then Inl (Unexpected_character (to_char c))
             else Inr (to_char c, fd1))
      else Inr (sep, fd))"

definition parse_regexp :: "compiler \<Rightarrow> string \<Rightarrow> int \<Rightarrow> parse_error + regexp \<times> string" where
  "parse_regexp pcre_compile fd sep0 =
     (case determine_separator fd sep0 of
        Inl err \<Rightarrow> Inl err
      | Inr (sep, fd1) \<Rightarrow>
          if sep = EOF then Inl Unexpected_EOF
          else
            (case parse_string fd1 sep of
               Inl err \<Rightarrow> Inl err
             | Inr (regexp_body, fd2) \<Rightarrow>
                 (case parse_flags fd2 0 of
                    Inl err \<Rightarrow> Inl err
                  | Inr (regexp_flags, fd3) \<Rightarrow>
                      (case pcre_compile (c_str regexp_body) regexp_flags of
                         Compile_error msg \<Rightarrow> Inl (Invalid_regular_expression msg (c_str regexp_body))
                       | Study_error msg \<Rightarrow> Inl (Cannot_compile_regular_expression msg (c_str regexp_body))
                       | Compiled m n \<Rightarrow>
                           Inr (\<lparr> matcher = m, captures = n, raw = c_str regexp_body \<rparr>, fd3)))))"

text \<open>
  \<^verbatim>\<open>parse_item\<close>: the \<^verbatim>\<open>enum type\<close> with what the call stores for it, and the bytes left.
  It calls itself after a comment; the lemmas show that the file gets shorter.
\<close>

datatype item =
    CMDLINE regexp
  | RULE regexp string
  | END

lemma length_parse_blanks: "length (parse_blanks fd) \<le> length fd"
  by (induction fd) auto

lemma length_parse_comment: "length (parse_comment fd) \<le> length fd"
  by (induction fd) auto

lemma length_getc: "getc fd = (c, fd') \<Longrightarrow> c \<noteq> EOF \<Longrightarrow> length fd' < length fd"
  by (cases fd) (auto simp: EOF_def)

lemma comment_shorter:
  assumes "(c, y) = getc (parse_blanks fd)" and "c \<noteq> EOF"
  shows "length (parse_comment y) < length fd"
proof -
  have "length y < length (parse_blanks fd)"
    using assms length_getc [of "parse_blanks fd" c y] by simp
  then show ?thesis
    using length_parse_blanks [of fd] length_parse_comment [of y] by linarith
qed

function parse_item :: "compiler \<Rightarrow> string \<Rightarrow> parse_error + item \<times> string" where
  "parse_item pcre_compile fd =
     (case getc (parse_blanks fd) of
        (c, fd1) \<Rightarrow>
          if c = of_char (CHR ''-'') then
            (case parse_regexp pcre_compile (parse_blanks fd1) 0 of
               Inl err \<Rightarrow> Inl err
             | Inr (re, fd2) \<Rightarrow> Inr (CMDLINE re, fd2))
          else if c = of_char (CHR ''m'') \<or> c = of_char (CHR ''/'') then
            (case (if c = of_char (CHR ''m'') then getc fd1 else (c, fd1)) of
               (c', fd2) \<Rightarrow>
                 (case parse_regexp pcre_compile fd2 (to_char c') of
                    Inl err \<Rightarrow> Inl err
                  | Inr (re, fd3) \<Rightarrow>
                      (case parse_string (parse_blanks fd3) (of_char newline) of
                         Inl err \<Rightarrow> Inl err
                       | Inr (str, fd4) \<Rightarrow> Inr (RULE re str, fd4))))
          else if c = of_char (CHR ''#'') then parse_item pcre_compile (parse_comment fd1)
          else if c = EOF then Inr (END, fd1)
          else Inl (Unexpected_character (to_char c)))"
  by pat_completeness auto
termination
  by (relation "measure (\<lambda>(pcre_compile, fd). length fd)")
     (auto intro: comment_shorter simp: EOF_def)

text \<open>
  Each parser that succeeds has consumed input, and \<^verbatim>\<open>parse_item\<close> has unless it
  returns \<^verbatim>\<open>END\<close>: the loop of \<^verbatim>\<open>parse_config\<close> ends.
\<close>

declare parse_item.simps [simp del]

lemma parse_string_loop_shorter:
  "parse_string_loop fd sep escaped str = Inr (s, fd') \<Longrightarrow> length fd' < length fd"
proof (induction fd arbitrary: escaped str)
  case Nil
  then show ?case by simp
next
  case (Cons c fd)
  let ?escaped = "if c = backslash then \<not> escaped else False"
  have "fd' = fd \<or> (\<exists>str'. parse_string_loop fd sep ?escaped str' = Inr (s, fd'))"
    using Cons.prems by (auto simp: Let_def split: if_splits)
  then show ?case
    using Cons.IH by fastforce
qed

lemma parse_string_shorter:
  "parse_string fd sep = Inr (s, fd') \<Longrightarrow> length fd' < length fd"
  unfolding parse_string_def by (rule parse_string_loop_shorter)

lemma parse_flags_shorter:
  "parse_flags fd regexp_flags = Inr (f, fd') \<Longrightarrow> length fd' < length fd"
  by (induction fd regexp_flags rule: parse_flags.induct) (auto split: if_splits)

lemma determine_separator_shorter:
  "determine_separator fd sep = Inr (sep', fd') \<Longrightarrow> length fd' \<le> length fd"
  by (cases fd; cases "tl fd")
     (auto simp: determine_separator_def split: if_splits prod.splits)

lemma parse_regexp_shorter:
  assumes "parse_regexp pcre_compile fd sep = Inr (re, fd')"
  shows "length fd' < length fd"
proof -
  from assms obtain sep' fd1 body fd2 regexp_flags where
    a: "determine_separator fd sep = Inr (sep', fd1)"
    and b: "parse_string fd1 sep' = Inr (body, fd2)"
    and c: "parse_flags fd2 0 = Inr (regexp_flags, fd')"
    by (auto simp: parse_regexp_def split: sum.splits prod.splits if_splits compiled.splits)
  show ?thesis
    using determine_separator_shorter [OF a] parse_string_shorter [OF b] parse_flags_shorter [OF c]
    by linarith
qed

lemma parse_item_shorter:
  "parse_item pcre_compile fd = Inr (it, fd') \<Longrightarrow> it \<noteq> END \<Longrightarrow> length fd' < length fd"
proof (induction pcre_compile fd rule: parse_item.induct)
  case (1 pcre_compile fd)
  obtain c fd1 where g: "getc (parse_blanks fd) = (c, fd1)"
    by (cases "getc (parse_blanks fd)")
  have le1: "length fd1 \<le> length fd"
    using g length_parse_blanks [of fd] by (cases "parse_blanks fd") auto
  consider (ctx) "c = of_char (CHR ''-'')"
    | (rule) "c \<noteq> of_char (CHR ''-'')" "c = of_char (CHR ''m'') \<or> c = of_char (CHR ''/'')"
    | (comment) "c \<noteq> of_char (CHR ''-'')" "\<not> (c = of_char (CHR ''m'') \<or> c = of_char (CHR ''/''))"
        "c = of_char (CHR ''#'')"
    | (other) "c \<noteq> of_char (CHR ''-'')" "\<not> (c = of_char (CHR ''m'') \<or> c = of_char (CHR ''/''))"
        "c \<noteq> of_char (CHR ''#'')"
    by blast
  then show ?case
  proof cases
    case ctx
    with "1.prems" g obtain re where "parse_regexp pcre_compile (parse_blanks fd1) 0 = Inr (re, fd')"
      by (auto simp: parse_item.simps [of pcre_compile fd] split: sum.splits prod.splits)
    from parse_regexp_shorter [OF this] length_parse_blanks [of fd1] le1 show ?thesis
      by linarith
  next
    case rule
    obtain c' fd2 where h: "(if c = of_char (CHR ''m'') then getc fd1 else (c, fd1)) = (c', fd2)"
      by (cases "if c = of_char (CHR ''m'') then getc fd1 else (c, fd1)")
    have le2: "length fd2 \<le> length fd1"
      using h by (cases fd1) (auto split: if_splits)
    from "1.prems" g rule h obtain re fd3 str where
      r: "parse_regexp pcre_compile fd2 (to_char c') = Inr (re, fd3)"
      and s: "parse_string (parse_blanks fd3) (of_char newline) = Inr (str, fd')"
      by (auto simp: parse_item.simps [of pcre_compile fd] split: sum.splits prod.splits if_splits)
    from parse_regexp_shorter [OF r] parse_string_shorter [OF s] length_parse_blanks [of fd3] le1 le2
    show ?thesis by linarith
  next
    case comment
    have sh: "length (parse_comment fd1) < length fd"
      using comment_shorter [of c fd1 fd] g comment(3) by (simp add: EOF_def)
    have "parse_item pcre_compile (parse_comment fd1) = Inr (it, fd')"
      using "1.prems"(1) g comment by (simp add: parse_item.simps [of pcre_compile fd])
    from "1.IH" [OF g [symmetric] comment(1,2,3) this "1.prems"(2)] sh show ?thesis
      by linarith
  next
    case other
    with "1.prems" g show ?thesis
      by (auto simp: parse_item.simps [of pcre_compile fd] split: if_splits)
  qed
qed

text \<open>
  \<^verbatim>\<open>parse_config\<close>: the chained list of contexts is the list \<open>finished\<close> followed by
  \<^verbatim>\<open>current_context\<close>, whose rules are in declared order (\<^verbatim>\<open>last_rule\<close> appends).
\<close>

function parse_config_loop ::
  "compiler \<Rightarrow> string \<Rightarrow> rewrite_context list \<Rightarrow> rewrite_context \<Rightarrow> parse_error + rewrite_context list" where
  "parse_config_loop pcre_compile fd finished current_context =
     (case parse_item pcre_compile fd of
        Inl err \<Rightarrow> Inl err
      | Inr (CMDLINE re, fd') \<Rightarrow>
          parse_config_loop pcre_compile fd' (finished @ [current_context])
            \<lparr> cmdline = (if raw re = [] then None else Some re), rules = [] \<rparr>
      | Inr (RULE re str, fd') \<Rightarrow>
          parse_config_loop pcre_compile fd' finished
            (current_context\<lparr> rules := rules current_context
               @ [\<lparr> filename_regexp = re,
                     rewritten_path = (if c_str str = ''.'' then None else Some (c_str str)) \<rparr>] \<rparr>)
      | Inr (END, fd') \<Rightarrow> Inr (finished @ [current_context]))"
  by pat_completeness auto
termination
  by (relation "measure (\<lambda>(pcre_compile, fd, finished, current_context). length fd)")
     (auto dest: parse_item_shorter)

declare parse_config_loop.simps [simp del]

definition parse_config :: "compiler \<Rightarrow> string \<Rightarrow> parse_error + rewrite_context list" where
  "parse_config pcre_compile fd = parse_config_loop pcre_compile fd [] \<lparr> cmdline = None, rules = [] \<rparr>"

subsection \<open>Command-line arguments parsing\<close>

text \<open>
  Command-line arguments. \<open>arguments\<close> is the global \<^verbatim>\<open>config\<close> after \<^verbatim>\<open>fuse_opt_parse\<close>
  (which FUSE provides), where \<^verbatim>\<open>NULL\<close> is \<open>None\<close>; \<open>startup_error\<close> lists the ways in
  which \<^verbatim>\<open>parse_args\<close> ends the process.
\<close>

record arguments =
  arg_config_file :: "string option"
  arg_orig_fs :: "string option"
  arg_mount_point :: "string option"
  arg_verbose :: int
  arg_autocreate :: bool

datatype startup_error =
    Missing_source
  | Cannot_open_source
  | Missing_mount_point
  | Config_inside_mount_point
  | Cannot_open_config
  | Config_error parse_error

text \<open>
  \<^verbatim>\<open>strncmp(s1, s2, n)\<close> on C strings: the sign of the first difference among the first
  \<open>n\<close> bytes, the end of a string being a NUL byte.
\<close>

fun strncmp :: "string \<Rightarrow> string \<Rightarrow> nat \<Rightarrow> int" where
  "strncmp s1 s2 0 = 0"
| "strncmp [] [] (Suc n) = 0"
| "strncmp [] (c2 # s2) (Suc n) = - 1"
| "strncmp (c1 # s1) [] (Suc n) = 1"
| "strncmp (c1 # s1) (c2 # s2) (Suc n) =
     (if c1 = c2 then strncmp s1 s2 n
      else if (of_char c1 :: nat) < of_char c2 then - 1 else 1)"

text \<open>
  \<^verbatim>\<open>parse_args\<close>: the configuration it leaves and the table it prints, or the error. The
  arguments it adds for FUSE are left out. \<^verbatim>\<open>canonicalize_file_name\<close> returns a path
  that is not empty.
\<close>

definition show_table :: "config \<Rightarrow> event list" where
  "show_table cfg =
     concat (map (\<lambda>ctx.
         DEBUG cfg 1 (Table_context (case cmdline ctx of Some re \<Rightarrow> raw re | None \<Rightarrow> ''default''))
         @ concat (map (\<lambda>rule.
             DEBUG cfg 1 (Table_rule (raw (filename_regexp rule))
               (case rewritten_path rule of Some t \<Rightarrow> t | None \<Rightarrow> ''(don't rewrite)'')))
             (rules ctx)))
       (contexts cfg))
     @ DEBUG cfg 1 Blank_line"

definition parse_args ::
  "compiler \<Rightarrow> 'w os \<Rightarrow> arguments \<Rightarrow> 'w \<Rightarrow> startup_error + config \<times> event list" where
  "parse_args pcre_compile os args w =
     (case arg_orig_fs args of
        None \<Rightarrow> Inl Missing_source
      | Some source \<Rightarrow>
          (case os_canonicalize_file_name os source w of
             None \<Rightarrow> Inl Cannot_open_source
           | Some canonical \<Rightarrow>
               (case arg_mount_point args of
                  None \<Rightarrow> Inl Missing_mount_point
                | Some mount \<Rightarrow>
                    (let cfg = \<lparr> config_file = arg_config_file args,
                                 orig_fs = (if canonical \<noteq> [] \<and> last canonical = CHR ''/''
                                            then butlast canonical else canonical),
                                 mount_point = mount, contexts = [],
                                 verbose = arg_verbose args, autocreate = arg_autocreate args \<rparr>
                     in case arg_config_file args of
                          None \<Rightarrow> Inr (cfg, [])
                        | Some file \<Rightarrow>
                            if strncmp file mount (length mount) = 0 then Inl Config_inside_mount_point
                            else
                              (case os_fopen os file w of
                                 None \<Rightarrow> Inl Cannot_open_config
                               | Some fd \<Rightarrow>
                                   (case parse_config pcre_compile fd of
                                      Inl err \<Rightarrow> Inl (Config_error err)
                                    | Inr ctxs \<Rightarrow>
                                        Inr (cfg\<lparr>contexts := ctxs\<rparr>, show_table (cfg\<lparr>contexts := ctxs\<rparr>))))))))"

subsection \<open>Rewrite stuff\<close>

text \<open>
  Modelled from the spec: \<^verbatim>\<open>string_replace\<close> is declared in \<^verbatim>\<open>util.h\<close> and its body
  is not under \<^verbatim>\<open>src/\<close>. Following the spec's "replacing every backreference token",
  \<open>string_replace s pat rep\<close> is \<open>s\<close> with every occurrence of \<open>pat\<close>, found from left to
  right and not overlapping, replaced by \<open>rep\<close>.
\<close>

function string_replace :: "string \<Rightarrow> string \<Rightarrow> string \<Rightarrow> string" where
  "string_replace [] pat rep = []"
| "string_replace (c # cs) pat rep =
     (if pat \<noteq> [] \<and> prefix pat (c # cs)
      then rep @ string_replace (drop (length pat) (c # cs)) pat rep
      else c # string_replace cs pat rep)"
  by pat_completeness auto
termination
  by (relation "measure (\<lambda>(s, pat, rep). length s)") (auto simp: neq_Nil_conv)

text \<open>
  \<^verbatim>\<open>get_caller_cmdline\<close>: the bytes of \<^verbatim>\<open>/proc/<pid>/cmdline\<close> with every NUL byte
  replaced by a space; the empty string when the file cannot be opened.
\<close>

definition get_caller_cmdline :: "'w os \<Rightarrow> fuse_context \<Rightarrow> 'w \<Rightarrow> string" where
  "get_caller_cmdline os fc w =
     (case os_fopen os (''/proc/'' @ show_int (pid fc) @ ''/cmdline'') w of
        None \<Rightarrow> []
      | Some bytes \<Rightarrow> map (\<lambda>c. if c = NUL then CHR '' '' else c) bytes)"

text \<open>
  The loop "Replace backreferences" of \<^verbatim>\<open>apply_rule\<close>, over the group numbers
  \<open>1 .. captures\<close>: the substring of group \<open>i\<close> replaces \<^verbatim>\<open>\i\<close> in the string so far;
  \<^verbatim>\<open>assert(substr_len >= 0)\<close> aborts.
\<close>

fun replace_backreferences :: "string \<Rightarrow> int list \<Rightarrow> int \<Rightarrow> nat list \<Rightarrow> string \<Rightarrow> error + string" where
  "replace_backreferences subject ovector scount [] rewritten = Inr rewritten"
| "replace_backreferences subject ovector scount (i # rest) rewritten =
     (case pcre_get_substring subject ovector scount (int i) of
        (substr_len, substr) \<Rightarrow>
          if substr_len < 0 then Inl Assertion_failed
          else replace_backreferences subject ovector scount rest
                 (string_replace rewritten (backslash # decimal i) substr))"

text \<open>
  The block \<^verbatim>\<open>if(config.autocreate)\<close> of \<^verbatim>\<open>apply_rule\<close>: the warnings it prints and
  the world after it. The mode \<^verbatim>\<open>S_IRWXU | S_IRWXG | S_IRWXO\<close> is 511 (octal 777).
\<close>

definition autocreate_parents :: "'w os \<Rightarrow> fuse_context \<Rightarrow> string \<Rightarrow> string \<Rightarrow> 'w \<Rightarrow> event list \<times> 'w" where
  "autocreate_parents os fc path rewritten w =
     (let euid = os_geteuid os w;
          egid = os_getegid os w;
          (r1, w1) = os_seteuid os (uid fc) w;
          (r2, w2) = os_setegid os (gid fc) w1;
          (r3, w3) = os_mkdir_parents os rewritten 511 w2;
          (r4, w4) = os_seteuid os euid w3;
          (r5, w5) = os_setegid os egid w4
      in ((if r1 = - 1 then [Warning_set_euid] else [])
          @ (if r2 = - 1 then [Warning_set_egid] else [])
          @ (if r3 = - 1 then [Warning_autocreate path rewritten] else [])
          @ (if r4 = - 1 then [Warning_restore_euid] else [])
          @ (if r5 = - 1 then [Warning_restore_egid] else []),
          w5))"

text \<open>
  \<^verbatim>\<open>apply_rule(path, rule)\<close>: the returned string (or the abort), what it prints and the
  world after it. \<open>apply_rule_ignored\<close> is its first block, entered for
  \<^verbatim>\<open>rule == NULL || rule->rewritten_path == NULL\<close>; \<open>apply_rule_rewrite\<close> is the rest, for
  the pattern and the template of the rule. The subject of the match is \<^verbatim>\<open>path + 1\<close>: a
  request path begins with \<^verbatim>\<open>/\<close>.
\<close>

definition apply_rule_ignored :: "config \<Rightarrow> string \<Rightarrow> 'w \<Rightarrow> (error + string) \<times> event list \<times> 'w" where
  "apply_rule_ignored cfg path w =
     (let rewritten = orig_fs cfg @ path
      in (Inr rewritten, DEBUG cfg 2 (Ignored path rewritten) @ DEBUG cfg 3 Blank_line, w))"

definition apply_rule_rewrite ::
  "config \<Rightarrow> 'w os \<Rightarrow> fuse_context \<Rightarrow> string \<Rightarrow> regexp \<Rightarrow> string \<Rightarrow> 'w
     \<Rightarrow> (error + string) \<times> event list \<times> 'w" where
  "apply_rule_rewrite cfg os fc path re template w =
     (let nvec = (captures re + 1) * 3;
          (scount, ovector) = pcre_exec re (drop 1 path) nvec
      in case replace_backreferences (drop 1 path) ovector scount [1 ..< Suc (captures re)] template of
           Inl e \<Rightarrow> (Inl e, [], w)
         | Inr rewritten_path' \<Rightarrow>
             (let shown = DEBUG cfg 4 (Show_orig_fs (orig_fs cfg))
                    @ DEBUG cfg 4 (Show_begin (take (nat (ovector ! 0 + 1)) path))
                    @ DEBUG cfg 4 (Show_rewritten template)
                    @ DEBUG cfg 4 (Show_end (drop (nat (1 + ovector ! 1)) path));
                  rewritten = orig_fs cfg @ take (nat (1 + ovector ! 0)) path
                    @ rewritten_path' @ drop (nat (1 + ovector ! 1)) path;
                  (warnings, w') =
                    (if autocreate cfg then autocreate_parents os fc path rewritten w
                     else ([], w))
              in (Inr rewritten,
                  shown @ warnings @ DEBUG cfg 1 (Rewritten path rewritten) @ DEBUG cfg 3 Blank_line,
                  w')))"

definition apply_rule ::
  "config \<Rightarrow> 'w os \<Rightarrow> fuse_context \<Rightarrow> string \<Rightarrow> rewrite_rule option \<Rightarrow> 'w
     \<Rightarrow> (error + string) \<times> event list \<times> 'w" where
  "apply_rule cfg os fc path rule w =
     (case rule of
        None \<Rightarrow> apply_rule_ignored cfg path w
      | Some r \<Rightarrow>
          (case rewritten_path r of
             None \<Rightarrow> apply_rule_ignored cfg path w
           | Some template \<Rightarrow> apply_rule_rewrite cfg os fc path (filename_regexp r) template w))"

text \<open>
  The inner loop of \<^verbatim>\<open>rewrite\<close> over the rules of one context: what it prints, and the
  rule at which it reaches \<^verbatim>\<open>return apply_rule(path, rule)\<close> (\<open>None\<close> when the loop
  ends).
\<close>

fun rewrite_rules :: "config \<Rightarrow> string \<Rightarrow> rewrite_rule list \<Rightarrow> event list \<times> rewrite_rule option" where
  "rewrite_rules cfg path [] = ([], None)"
| "rewrite_rules cfg path (rule # rest) =
     (let res = fst (pcre_exec (filename_regexp rule) (drop 1 path) 0)
      in if res < 0 then
           (case rewrite_rules cfg path rest of
              (printed, found) \<Rightarrow>
                ((if res \<noteq> PCRE_ERROR_NOMATCH then [Warning_pcre_exec res] else [])
                 @ DEBUG cfg 3 (Rule_nomatch (raw (filename_regexp rule))) @ printed, found))
         else
           (DEBUG cfg 3 (Rule_ok (raw (filename_regexp rule))
              (case rewritten_path rule of Some t \<Rightarrow> t | None \<Rightarrow> ''(don't rewrite)'')),
            Some rule))"

text \<open>
  The outer loop of \<^verbatim>\<open>rewrite\<close> over the contexts. \<open>caller\<close> is the variable
  \<^verbatim>\<open>caller\<close>: \<open>None\<close> until the first context with a command line pattern reads it.
\<close>

fun rewrite_contexts ::
  "config \<Rightarrow> 'w os \<Rightarrow> fuse_context \<Rightarrow> 'w \<Rightarrow> string \<Rightarrow> string option \<Rightarrow> rewrite_context list
     \<Rightarrow> event list \<times> rewrite_rule option" where
  "rewrite_contexts cfg os fc w path caller [] = ([], None)"
| "rewrite_contexts cfg os fc w path caller (ctx # rest) =
     (case cmdline ctx of
        Some re \<Rightarrow>
          (let caller' = (case caller of None \<Rightarrow> get_caller_cmdline os fc w | Some c \<Rightarrow> c);
               res = fst (pcre_exec re caller' 0)
           in if res < 0 then
                (case rewrite_contexts cfg os fc w path (Some caller') rest of
                   (printed, found) \<Rightarrow>
                     ((if res \<noteq> PCRE_ERROR_NOMATCH then [Warning_pcre_exec res] else [])
                      @ DEBUG cfg 3 (Ctx_nomatch (raw re)) @ printed, found))
              else
                (case rewrite_rules cfg path (rules ctx) of
                   (printed, Some rule) \<Rightarrow> (DEBUG cfg 3 (Ctx_ok (raw re)) @ printed, Some rule)
                 | (printed, None) \<Rightarrow>
                     (case rewrite_contexts cfg os fc w path (Some caller') rest of
                        (printed', found) \<Rightarrow>
                          (DEBUG cfg 3 (Ctx_ok (raw re)) @ printed @ printed', found))))
      | None \<Rightarrow>
          (case rewrite_rules cfg path (rules ctx) of
             (printed, Some rule) \<Rightarrow> (DEBUG cfg 3 Ctx_default @ printed, Some rule)
           | (printed, None) \<Rightarrow>
               (case rewrite_contexts cfg os fc w path caller rest of
                  (printed', found) \<Rightarrow> (DEBUG cfg 3 Ctx_default @ printed @ printed', found))))"

text \<open>\<^verbatim>\<open>rewrite(path)\<close>.\<close>

definition rewrite ::
  "config \<Rightarrow> 'w os \<Rightarrow> fuse_context \<Rightarrow> string \<Rightarrow> 'w \<Rightarrow> (error + string) \<times> event list \<times> 'w" where
  "rewrite cfg os fc path w =
     (case rewrite_contexts cfg os fc w path None (contexts cfg) of
        (printed, found) \<Rightarrow>
          (case apply_rule cfg os fc path found w of
             (result, printed', w') \<Rightarrow> (result, DEBUG cfg 3 (Request path) @ printed @ printed', w')))"

subsection \<open>Matching, as \<^verbatim>\<open>rewrite\<close> tests it\<close>

text \<open>
  A pattern matches a subject when \<^verbatim>\<open>pcre_exec\<close> (called without an offset vector)
  does not return a negative code: the test \<^verbatim>\<open>res < 0\<close> of \<^verbatim>\<open>rewrite\<close>. The rules of a
  context are examined when the context has no command line pattern or its pattern
  matches the caller.
\<close>

definition matches :: "regexp \<Rightarrow> string \<Rightarrow> bool" where
  "matches re subject = (\<not> fst (pcre_exec re subject 0) < 0)"

definition context_applies :: "string \<Rightarrow> rewrite_context \<Rightarrow> bool" where
  "context_applies caller ctx = (case cmdline ctx of None \<Rightarrow> True | Some re \<Rightarrow> matches re caller)"

text \<open>
  A pattern, a rule and a context in which every engine error of a match attempt is a
  clean no-match instead; and the warning that \<^verbatim>\<open>rewrite\<close> prints for an engine error.
\<close>

definition without_engine_errors :: "regexp \<Rightarrow> regexp" where
  "without_engine_errors re =
     re\<lparr>matcher := (\<lambda>subject. case matcher re subject of EngineError n \<Rightarrow> NoMatch | m \<Rightarrow> m)\<rparr>"

definition clean_rule :: "rewrite_rule \<Rightarrow> rewrite_rule" where
  "clean_rule rule = rule\<lparr>filename_regexp := without_engine_errors (filename_regexp rule)\<rparr>"

definition clean_context :: "rewrite_context \<Rightarrow> rewrite_context" where
  "clean_context ctx =
     ctx\<lparr>cmdline := map_option without_engine_errors (cmdline ctx), rules := map clean_rule (rules ctx)\<rparr>"

fun is_pcre_warning :: "event \<Rightarrow> bool" where
  "is_pcre_warning (Warning_pcre_exec res) = True"
| "is_pcre_warning x = False"

subsection \<open>Groups and the expansion of the template\<close>

text \<open>
  The substring that \<^verbatim>\<open>pcre_get_substring\<close> copies for a pair of offsets: the text of a
  group. A group that did not take part, with offsets \<open>(-1, -1)\<close>, has the empty text.
\<close>

definition group_text :: "string \<Rightarrow> int \<times> int \<Rightarrow> string" where
  "group_text subject p = take (nat (snd p - fst p)) (drop (nat (fst p)) subject)"

text \<open>
One round of the loop "Replace backreferences", for group \<open>i\<close>.
\<close>

definition substitute_group :: "string \<Rightarrow> (int \<times> int) list \<Rightarrow> string \<Rightarrow> nat \<Rightarrow> string" where
  "substitute_group subject groups acc i =
     string_replace acc (backslash # decimal i) (group_text subject (groups ! (i - 1)))"

text \<open>
  The template expansion in the words of the spec, to compare \<^verbatim>\<open>apply_rule\<close> with: "scans
  the template left to right, copying literal bytes and replacing every backreference
  token \<^verbatim>\<open>\N\<close> (N = 1..capture-count) with the text of capture group N". It is written for
  patterns of at most nine groups, where a token is a backslash and one digit.
\<close>

definition spec_backreference :: "nat \<Rightarrow> char \<Rightarrow> char \<Rightarrow> bool" where
  "spec_backreference count c d =
     (c = backslash \<and> 49 \<le> (of_char d :: nat) \<and> (of_char d :: nat) \<le> 57
      \<and> (of_char d :: nat) \<le> 48 + count)"

fun spec_expand_template :: "(nat \<Rightarrow> string) \<Rightarrow> nat \<Rightarrow> string \<Rightarrow> string" where
  "spec_expand_template texts count [] = []"
| "spec_expand_template texts count [c] = [c]"
| "spec_expand_template texts count (c # d # cs) =
     (if spec_backreference count c d then texts (of_char d - 48) @ spec_expand_template texts count cs
      else c # spec_expand_template texts count (d # cs))"

text \<open>
No backslash of the template is followed by another backslash.
\<close>

fun no_double_backslash :: "string \<Rightarrow> bool" where
  "no_double_backslash [] = True"
| "no_double_backslash [c] = True"
| "no_double_backslash (c # d # cs) = (\<not> (c = backslash \<and> d = backslash) \<and> no_double_backslash (d # cs))"

subsection \<open>The command line of a process\<close>

text \<open>
  What Linux holds in \<^verbatim>\<open>/proc/<pid>/cmdline\<close> for the arguments of a process: each
  argument followed by a NUL byte. \<open>spec_join_arguments\<close> is the spec's "joining argument
  boundaries with a single space".
\<close>

definition proc_cmdline :: "string list \<Rightarrow> string" where
  "proc_cmdline argv = concat (map (\<lambda>a. a @ [NUL]) argv)"

fun spec_join_arguments :: "string list \<Rightarrow> string" where
  "spec_join_arguments [] = []"
| "spec_join_arguments [a] = a"
| "spec_join_arguments (a # b # argv) = a @ '' '' @ spec_join_arguments (b # argv)"

subsection \<open>Concrete surroundings for evaluating the code\<close>

text \<open>
  A small operating system: files that can be read, the effective ids, and the
  directories that \<^verbatim>\<open>mkdir_parents\<close> was asked to create, with the ids in effect then.
  Every path is canonical and every call succeeds.
\<close>

record machine =
  m_files :: "(string \<times> string) list"
  m_euid :: nat
  m_egid :: nat
  m_made :: "(string \<times> nat \<times> nat) list"

definition machine_os :: "machine os" where
  "machine_os =
     \<lparr> os_canonicalize_file_name = (\<lambda>p w. Some p),
       os_fopen = (\<lambda>p w. map_of (m_files w) p),
       os_geteuid = m_euid,
       os_getegid = m_egid,
       os_seteuid = (\<lambda>u w. (0, w\<lparr>m_euid := u\<rparr>)),
       os_setegid = (\<lambda>g w. (0, w\<lparr>m_egid := g\<rparr>)),
       os_mkdir_parents = (\<lambda>p mode w. (0, w\<lparr>m_made := (p, m_euid w, m_egid w) # m_made w\<rparr>)) \<rparr>"

text \<open>
  Machines: one without files, one on which the caller (process 42) is \<^verbatim>\<open>myapp\<close>, one
  on which it is \<^verbatim>\<open>ls -l\<close>, and one whose file \<^verbatim>\<open>/mnt\<close> is an empty configuration. The
  request of process 42.
\<close>

definition machine0 :: machine where
  "machine0 = \<lparr> m_files = [], m_euid = 0, m_egid = 0, m_made = [] \<rparr>"

definition machine1 :: machine where
  "machine1 = \<lparr> m_files = [(''/proc/42/cmdline'', ''myapp'' @ [NUL])], m_euid = 0, m_egid = 0, m_made = [] \<rparr>"

definition machine_ls :: machine where
  "machine_ls = \<lparr> m_files = [(''/proc/42/cmdline'', proc_cmdline [''ls'', ''-l''])],
     m_euid = 0, m_egid = 0, m_made = [] \<rparr>"

definition machine_config :: machine where
  "machine_config = \<lparr> m_files = [(''/mnt'', [])], m_euid = 0, m_egid = 0, m_made = [] \<rparr>"

definition request0 :: fuse_context where
  "request0 = \<lparr> pid = 42, uid = 1000, gid = 100 \<rparr>"

text \<open>
  What libpcre computes for some patterns compiled without flags; \<^verbatim>\<open>$\<close> also matches
  before a last newline, and \<^verbatim>\<open>.\<close> matches no newline. \<^verbatim>\<open>^foo/(.*)$\<close>: the subject
  starts with \<^verbatim>\<open>foo/\<close>, and the rest holds no newline but possibly a last one.
\<close>

definition match_foo_rest :: "string \<Rightarrow> match_result" where
  "match_foo_rest s =
     (if prefix ''foo/'' s then
        (let k = 4 + length (takeWhile (\<lambda>c. c \<noteq> newline) (drop 4 s))
         in if k = length s \<or> k + 1 = length s then Matched (0, int k) [(4, int k)] else NoMatch)
      else NoMatch)"

definition re_foo_rest :: regexp where
  "re_foo_rest = \<lparr> matcher = match_foo_rest, captures = 1, raw = ''^foo/(.*)$'' \<rparr>"

text \<open>
A literal between \<^verbatim>\<open>^\<close> and \<^verbatim>\<open>$\<close>, such as \<^verbatim>\<open>^foo$\<close>; a literal after \<^verbatim>\<open>^\<close>.
\<close>

definition match_literal :: "string \<Rightarrow> string \<Rightarrow> match_result" where
  "match_literal lit s =
     (if s = lit \<or> s = lit @ [newline] then Matched (0, int (length lit)) [] else NoMatch)"

definition re_literal :: "string \<Rightarrow> regexp" where
  "re_literal lit = \<lparr> matcher = match_literal lit, captures = 0, raw = ''^'' @ lit @ ''$'' \<rparr>"

definition match_starts_with :: "string \<Rightarrow> string \<Rightarrow> match_result" where
  "match_starts_with lit s = (if prefix lit s then Matched (0, int (length lit)) [] else NoMatch)"

definition re_starts_with :: "string \<Rightarrow> regexp" where
  "re_starts_with lit = \<lparr> matcher = match_starts_with lit, captures = 0, raw = ''^'' @ lit \<rparr>"

text \<open>
  A pattern \<^verbatim>\<open>^(l1)(l2)...(ln)$\<close> whose groups are the literals \<open>lits\<close>; \<^verbatim>\<open>^a(b)?$\<close>,
  whose group takes no part in the match of \<^verbatim>\<open>a\<close>; \<^verbatim>\<open>^(a)?(b)$\<close>, whose first group
  takes no part in the match of \<^verbatim>\<open>b\<close>.
\<close>

fun group_offsets :: "nat \<Rightarrow> string list \<Rightarrow> (int \<times> int) list" where
  "group_offsets at [] = []"
| "group_offsets at (l # ls) = (int at, int (at + length l)) # group_offsets (at + length l) ls"

definition match_groups :: "string list \<Rightarrow> string \<Rightarrow> match_result" where
  "match_groups lits s =
     (if s = concat lits \<or> s = concat lits @ [newline]
      then Matched (0, int (length (concat lits))) (group_offsets 0 lits) else NoMatch)"

definition re_groups :: "string list \<Rightarrow> string \<Rightarrow> regexp" where
  "re_groups lits pattern = \<lparr> matcher = match_groups lits, captures = length lits, raw = pattern \<rparr>"

definition match_optional_last :: "string \<Rightarrow> match_result" where
  "match_optional_last s =
     (if s = ''a'' \<or> s = ''a'' @ [newline] then Matched (0, 1) []
      else if s = ''ab'' \<or> s = ''ab'' @ [newline] then Matched (0, 2) [(1, 2)]
      else NoMatch)"

definition re_optional_last :: regexp where
  "re_optional_last = \<lparr> matcher = match_optional_last, captures = 1, raw = ''^a(b)?$'' \<rparr>"

definition match_optional_first :: "string \<Rightarrow> match_result" where
  "match_optional_first s =
     (if s = ''b'' \<or> s = ''b'' @ [newline] then Matched (0, 1) [(- 1, - 1), (0, 1)]
      else if s = ''ab'' \<or> s = ''ab'' @ [newline] then Matched (0, 2) [(0, 1), (1, 2)]
      else NoMatch)"

definition re_optional_first :: regexp where
  "re_optional_first = \<lparr> matcher = match_optional_first, captures = 2, raw = ''^(a)?(b)$'' \<rparr>"

text \<open>
  A pattern on which every match attempt ends with the engine error
  \<^verbatim>\<open>PCRE_ERROR_MATCHLIMIT\<close> (-8).
\<close>

definition re_failing :: regexp where
  "re_failing = \<lparr> matcher = (\<lambda>s. EngineError 6), captures = 0, raw = ''(a+)+$'' \<rparr>"

text \<open>
  A compiler for the evaluation of the parser: every body is taken as a literal to
  be found at the start of the subject.
\<close>

definition literal_compiler :: compiler where
  "literal_compiler body regexp_flags = Compiled (match_starts_with body) 0"

text \<open>
Rules, contexts and configurations with the root \<^verbatim>\<open>/data\<close>.
\<close>

definition rule_logs :: rewrite_rule where
  "rule_logs = \<lparr> filename_regexp = re_literal ''logs'', rewritten_path = None \<rparr>"

definition rule_foo :: rewrite_rule where
  "rule_foo = \<lparr> filename_regexp = re_foo_rest, rewritten_path = Some (''bar/'' @ [backslash] @ ''1'') \<rparr>"

definition rule_foo2 :: rewrite_rule where
  "rule_foo2 = \<lparr> filename_regexp = re_foo_rest, rewritten_path = Some (''baz/'' @ [backslash] @ ''1'') \<rparr>"

definition rule_failing :: rewrite_rule where
  "rule_failing = \<lparr> filename_regexp = re_failing, rewritten_path = Some ''x'' \<rparr>"

definition ctx_other :: rewrite_context where
  "ctx_other = \<lparr> cmdline = Some (re_starts_with ''other''), rules = [rule_foo2] \<rparr>"

definition ctx_myapp :: rewrite_context where
  "ctx_myapp = \<lparr> cmdline = Some (re_starts_with ''myapp''), rules = [rule_logs] \<rparr>"

definition ctx_my :: rewrite_context where
  "ctx_my = \<lparr> cmdline = Some (re_starts_with ''my''), rules = [rule_foo] \<rparr>"

definition ctx_three :: rewrite_context where
  "ctx_three = \<lparr> cmdline = None, rules = [rule_logs, rule_foo, rule_foo2] \<rparr>"

definition ctx_last :: rewrite_context where
  "ctx_last = \<lparr> cmdline = None, rules = [rule_foo2] \<rparr>"

definition ctx_failing :: rewrite_context where
  "ctx_failing = \<lparr> cmdline = Some re_failing, rules = [rule_foo2] \<rparr>"

definition ctx_nomatch :: rewrite_context where
  "ctx_nomatch = \<lparr> cmdline = Some (re_starts_with ''other''), rules = [rule_foo2] \<rparr>"

definition cfg_logs :: config where
  "cfg_logs = \<lparr> config_file = None, orig_fs = ''/data'', mount_point = ''/mnt'',
     contexts = [\<lparr> cmdline = None, rules = [rule_logs] \<rparr>], verbose = 0, autocreate = True \<rparr>"

definition cfg_order :: config where
  "cfg_order = \<lparr> config_file = None, orig_fs = ''/data'', mount_point = ''/mnt'',
     contexts = [ctx_other, ctx_three, ctx_last], verbose = 0, autocreate = False \<rparr>"

definition cfg_fall :: config where
  "cfg_fall = \<lparr> config_file = None, orig_fs = ''/data'', mount_point = ''/mnt'',
     contexts = [ctx_myapp, ctx_last], verbose = 0, autocreate = False \<rparr>"

definition cfg_fall_caller :: config where
  "cfg_fall_caller = \<lparr> config_file = None, orig_fs = ''/data'', mount_point = ''/mnt'',
     contexts = [ctx_myapp, ctx_my, ctx_last], verbose = 0, autocreate = False \<rparr>"

definition cfg_any_caller :: config where
  "cfg_any_caller = \<lparr> config_file = None, orig_fs = ''/data'', mount_point = ''/mnt'',
     contexts = [\<lparr> cmdline = Some (re_starts_with []), rules = [rule_foo] \<rparr>],
     verbose = 0, autocreate = False \<rparr>"

text \<open>
Configurations with one rule in the default context, and a request path.
\<close>

definition one_rule :: "regexp \<Rightarrow> string \<Rightarrow> config" where
  "one_rule re template = \<lparr> config_file = None, orig_fs = ''/data'', mount_point = ''/mnt'',
     contexts = [\<lparr> cmdline = None, rules = [\<lparr> filename_regexp = re, rewritten_path = Some template \<rparr>] \<rparr>],
     verbose = 0, autocreate = False \<rparr>"

definition cfg_example :: config where
  "cfg_example = one_rule re_foo_rest (''bar/'' @ [backslash] @ ''1'')"

definition cfg_token :: config where
  "cfg_token = one_rule (re_groups [[backslash, CHR ''2''], ''x''] (''^('' @ [backslash, backslash] @ ''2)(x)$'')) [backslash, CHR ''1'']"

definition cfg_ten :: config where
  "cfg_ten = one_rule (re_groups [''a'', ''b'', ''c'', ''d'', ''e'', ''f'', ''g'', ''h'', ''i'', ''j'']
     ''^(a)(b)(c)(d)(e)(f)(g)(h)(i)(j)$'') [backslash, CHR ''1'', CHR ''0'']"

definition cfg_double :: config where
  "cfg_double = one_rule (re_groups [[], ''y''] ''^()(y)$'') [backslash, backslash, CHR ''1'', CHR ''2'']"

definition cfg_optional_last :: config where
  "cfg_optional_last = one_rule re_optional_last ''x''"

definition cfg_optional_last_token :: config where
  "cfg_optional_last_token = one_rule re_optional_last (''c'' @ [backslash] @ ''1'')"

definition cfg_optional_first :: config where
  "cfg_optional_first = one_rule re_optional_first (''x'' @ [backslash] @ ''1y'')"

definition cfg_out_of_range :: config where
  "cfg_out_of_range = one_rule (re_literal ''foo'') (''bar'' @ [backslash] @ ''1'')"

definition path_token :: string where
  "path_token = [CHR ''/'', backslash] @ ''2x''"

text \<open>
The arguments of two startups with the mount point \<^verbatim>\<open>/mnt/fs\<close>.
\<close>

definition args_beside :: arguments where
  "args_beside = \<lparr> arg_config_file = Some ''/mnt'', arg_orig_fs = Some ''/data'',
     arg_mount_point = Some ''/mnt/fs'', arg_verbose = 0, arg_autocreate = False \<rparr>"

definition args_inside :: arguments where
  "args_inside = \<lparr> arg_config_file = Some ''/mnt/fs/rules'', arg_orig_fs = Some ''/data'',
     arg_mount_point = Some ''/mnt/fs'', arg_verbose = 0, arg_autocreate = False \<rparr>"

section \<open>Properties\<close>

subsection \<open>The loops of \<^verbatim>\<open>rewrite\<close>\<close>

lemma matches_iff: "matches re s = (case matcher re s of Matched whole groups \<Rightarrow> True | _ \<Rightarrow> False)"
  by (simp add: matches_def pcre_exec_def PCRE_ERROR_NOMATCH_def Let_def split: match_result.splits)

lemma find_app:
  "List.find P (xs @ ys) = (case List.find P xs of None \<Rightarrow> List.find P ys | Some x \<Rightarrow> Some x)"
  by (induction xs) simp_all

lemma find_None_all: "(\<forall>x \<in> set xs. \<not> P x) \<Longrightarrow> List.find P xs = None"
  by (simp add: find_None_iff)

lemma rewrite_rules_found:
  "snd (rewrite_rules cfg path rs) = List.find (\<lambda>r. matches (filename_regexp r) (drop 1 path)) rs"
  by (induction rs) (auto simp add: Let_def matches_def split: prod.splits)

lemma rewrite_rules_append:
  "rewrite_rules cfg path (xs @ ys) =
     (case rewrite_rules cfg path xs of
        (p, Some r) \<Rightarrow> (p, Some r)
      | (p, None) \<Rightarrow> (case rewrite_rules cfg path ys of (p', f) \<Rightarrow> (p @ p', f)))"
  by (induction xs) (simp_all add: Let_def split: prod.splits option.splits)

lemma rewrite_contexts_caller:
  "rewrite_contexts cfg os fc w path None cs =
   rewrite_contexts cfg os fc w path (Some (get_caller_cmdline os fc w)) cs"
  by (induction cs) (simp_all add: Let_def split: prod.splits option.splits)

lemma rewrite_contexts_append:
  "rewrite_contexts cfg os fc w path (Some g) (xs @ ys) =
     (case rewrite_contexts cfg os fc w path (Some g) xs of
        (p, Some r) \<Rightarrow> (p, Some r)
      | (p, None) \<Rightarrow> (case rewrite_contexts cfg os fc w path (Some g) ys of (p', f) \<Rightarrow> (p @ p', f)))"
  by (induction xs) (simp_all add: Let_def split: prod.splits option.splits)

lemma rewrite_contexts_found:
  "snd (rewrite_contexts cfg os fc w path (Some g) cs) =
     List.find (\<lambda>r. matches (filename_regexp r) (drop 1 path))
       (concat (map rules (filter (context_applies g) cs)))"
proof (induction cs)
  case Nil
  show ?case by simp
next
  case (Cons ctx cs)
  show ?case
  proof (cases "cmdline ctx")
    case None
    then show ?thesis
      using Cons.IH rewrite_rules_found [of cfg path "rules ctx"]
      by (auto simp add: context_applies_def find_app split: prod.splits option.splits)
  next
    case (Some re)
    then show ?thesis
      using Cons.IH rewrite_rules_found [of cfg path "rules ctx"]
      by (auto simp add: context_applies_def matches_def find_app Let_def split: prod.splits option.splits)
  qed
qed

lemma rewrite_rules_first_match:
  assumes "\<forall>x \<in> set earlier. \<not> matches (filename_regexp x) (drop 1 path)"
    and "matches (filename_regexp r) (drop 1 path)"
  shows "rewrite_rules cfg path (earlier @ r # later) = rewrite_rules cfg path (earlier @ [r])"
    and "snd (rewrite_rules cfg path (earlier @ r # later)) = Some r"
proof -
  have none: "snd (rewrite_rules cfg path earlier) = None"
    using assms(1) by (simp add: rewrite_rules_found find_None_iff)
  have hit: "rewrite_rules cfg path (r # xs) = rewrite_rules cfg path [r]" for xs
    using assms(2) by (simp add: matches_def Let_def)
  have "snd (rewrite_rules cfg path [r]) = Some r"
    using assms(2) by (simp add: matches_def Let_def)
  then show "rewrite_rules cfg path (earlier @ r # later) = rewrite_rules cfg path (earlier @ [r])"
    and "snd (rewrite_rules cfg path (earlier @ r # later)) = Some r"
    using none hit [of later]
    by (auto simp add: rewrite_rules_append split: prod.splits option.splits)
qed

lemma rewrite_rules_no_match:
  "\<forall>x \<in> set rs. \<not> matches (filename_regexp x) (drop 1 path) \<Longrightarrow> snd (rewrite_rules cfg path rs) = None"
  by (simp add: rewrite_rules_found find_None_iff)

lemma rewrite_contexts_skipped:
  assumes "\<forall>c \<in> set before. \<not> context_applies g c
             \<or> (\<forall>x \<in> set (rules c). \<not> matches (filename_regexp x) (drop 1 path))"
  shows "snd (rewrite_contexts cfg os fc w path (Some g) before) = None"
proof -
  have "\<forall>x \<in> set (concat (map rules (filter (context_applies g) before))).
          \<not> matches (filename_regexp x) (drop 1 path)"
    using assms by fastforce
  then show ?thesis
    unfolding rewrite_contexts_found find_None_iff by blast
qed

lemma rewrite_contexts_hit:
  assumes "context_applies g ctx" and "snd (rewrite_rules cfg path (rules ctx)) = Some r"
  shows "rewrite_contexts cfg os fc w path (Some g) (ctx # rest)
           = rewrite_contexts cfg os fc w path (Some g) [ctx]"
    and "snd (rewrite_contexts cfg os fc w path (Some g) (ctx # rest)) = Some r"
  using assms
  by (auto simp add: context_applies_def matches_def Let_def split: prod.splits option.splits)

lemma rewrite_contexts_winner:
  assumes "\<forall>c \<in> set before. \<not> context_applies g c
             \<or> (\<forall>x \<in> set (rules c). \<not> matches (filename_regexp x) (drop 1 path))"
    and "context_applies g ctx"
    and "rules ctx = earlier @ r # others"
    and "\<forall>x \<in> set earlier. \<not> matches (filename_regexp x) (drop 1 path)"
    and "matches (filename_regexp r) (drop 1 path)"
  shows "snd (rewrite_contexts cfg os fc w path (Some g) (before @ ctx # rest)) = Some r"
proof -
  obtain pb where pb: "rewrite_contexts cfg os fc w path (Some g) before = (pb, None)"
    using rewrite_contexts_skipped [OF assms(1), of cfg os fc w]
    by (cases "rewrite_contexts cfg os fc w path (Some g) before") auto
  have "snd (rewrite_rules cfg path (rules ctx)) = Some r"
    using rewrite_rules_first_match(2) [OF assms(4,5)] assms(3) by simp
  then have "snd (rewrite_contexts cfg os fc w path (Some g) (ctx # rest)) = Some r"
    by (rule rewrite_contexts_hit(2) [OF assms(2)])
  then obtain pc where pc: "rewrite_contexts cfg os fc w path (Some g) (ctx # rest) = (pc, Some r)"
    by (cases "rewrite_contexts cfg os fc w path (Some g) (ctx # rest)") (simp del: rewrite_contexts.simps)
  show ?thesis
    unfolding rewrite_contexts_append [of cfg os fc w path g before] pb pc by simp
qed

lemma DEBUG_verbose: "verbose cfg' = verbose cfg \<Longrightarrow> DEBUG cfg' lvl x = DEBUG cfg lvl x"
  by (simp add: DEBUG_def)

lemma rewrite_rules_verbose:
  assumes "verbose cfg' = verbose cfg"
  shows "rewrite_rules cfg' path rs = rewrite_rules cfg path rs"
  by (induction rs) (simp_all add: DEBUG_verbose [OF assms] Let_def)

lemma rewrite_contexts_verbose:
  assumes "verbose cfg' = verbose cfg"
  shows "rewrite_contexts cfg' os fc w path caller cs = rewrite_contexts cfg os fc w path caller cs"
  by (induction cs arbitrary: caller)
     (simp_all add: DEBUG_verbose [OF assms] rewrite_rules_verbose [OF assms] Let_def
        split: option.splits prod.splits)

lemma get_caller_cmdline_fopen:
  "os_fopen os' = os_fopen os \<Longrightarrow> get_caller_cmdline os' fc w = get_caller_cmdline os fc w"
  by (simp add: get_caller_cmdline_def)

lemma rewrite_contexts_fopen:
  "os_fopen os' = os_fopen os \<Longrightarrow>
   rewrite_contexts cfg os' fc w path caller cs = rewrite_contexts cfg os fc w path caller cs"
proof (induction cs arbitrary: caller)
  case Nil
  show ?case by simp
next
  case (Cons ctx cs)
  have g: "get_caller_cmdline os' fc w = get_caller_cmdline os fc w"
    using Cons.prems by (rule get_caller_cmdline_fopen)
  show ?case
    by (simp add: g Cons.IH [OF Cons.prems] Let_def split: prod.splits option.splits)
qed

lemma apply_rule_no_rewrite:
  "apply_rule cfg os fc path None w =
     (Inr (orig_fs cfg @ path),
      DEBUG cfg 2 (Ignored path (orig_fs cfg @ path)) @ DEBUG cfg 3 Blank_line, w)"
  by (simp add: apply_rule_def apply_rule_ignored_def Let_def)

lemma apply_rule_passthrough:
  "rewritten_path r = None \<Longrightarrow>
   apply_rule cfg os fc path (Some r) w = apply_rule cfg os fc path None w"
  by (simp add: apply_rule_def)

lemma apply_rule_contexts:
  "apply_rule (cfg\<lparr>contexts := cs\<rparr>) os fc path x w = apply_rule cfg os fc path x w"
  by (simp add: apply_rule_def apply_rule_ignored_def apply_rule_rewrite_def DEBUG_def Let_def
        split: option.splits prod.splits sum.splits)

lemma fst_rewrite:
  "fst (rewrite cfg os fc path w) =
   fst (apply_rule cfg os fc path (snd (rewrite_contexts cfg os fc w path None (contexts cfg))) w)"
  by (simp add: rewrite_def split: prod.splits)

lemma world_rewrite:
  "snd (snd (rewrite cfg os fc path w)) =
   snd (snd (apply_rule cfg os fc path (snd (rewrite_contexts cfg os fc w path None (contexts cfg))) w))"
  by (simp add: rewrite_def split: prod.splits)

lemma rewrite_contexts_update:
  "rewrite (cfg\<lparr>contexts := cs\<rparr>) os fc path w =
     (case rewrite_contexts cfg os fc w path None cs of
        (printed, found) \<Rightarrow>
          (case apply_rule cfg os fc path found w of
             (result, printed', w') \<Rightarrow> (result, DEBUG cfg 3 (Request path) @ printed @ printed', w')))"
  by (simp add: rewrite_def apply_rule_contexts rewrite_contexts_verbose [of "cfg\<lparr>contexts := cs\<rparr>" cfg]
        DEBUG_verbose [of "cfg\<lparr>contexts := cs\<rparr>" cfg])

lemma caller1: "get_caller_cmdline machine_os request0 machine1 = ''myapp ''"
  by code_simp

subsection \<open>No rewrite\<close>

text \<open>
  Claim C2. When no rule of any context matches the request path, or the rule that
  \<^verbatim>\<open>rewrite\<close> passes to \<^verbatim>\<open>apply_rule\<close> has no template (\<^verbatim>\<open>"."\<close>), the returned path is
  the root followed by the request path, byte for byte; and for a rule without a template
  \<^verbatim>\<open>apply_rule\<close> returns, prints and leaves exactly what it does for no rule at all.
\<close>

theorem no_rewrite_returns_root_and_path:
  "((\<forall>ctx \<in> set (contexts cfg). \<forall>r \<in> set (rules ctx). \<not> matches (filename_regexp r) (drop 1 path))
      \<longrightarrow> fst (rewrite cfg os fc path w) = Inr (orig_fs cfg @ path))
   \<and> (\<forall>r. snd (rewrite_contexts cfg os fc w path None (contexts cfg)) = Some r \<and> rewritten_path r = None
      \<longrightarrow> fst (rewrite cfg os fc path w) = Inr (orig_fs cfg @ path))
   \<and> (\<forall>r. rewritten_path r = None
      \<longrightarrow> apply_rule cfg os fc path (Some r) w = apply_rule cfg os fc path None w)"
proof (intro conjI allI impI)
  assume none: "\<forall>ctx \<in> set (contexts cfg). \<forall>r \<in> set (rules ctx). \<not> matches (filename_regexp r) (drop 1 path)"
  let ?g = "get_caller_cmdline os fc w"
  have "\<forall>r \<in> set (concat (map rules (filter (context_applies ?g) (contexts cfg)))).
          \<not> matches (filename_regexp r) (drop 1 path)"
    using none by fastforce
  then have "snd (rewrite_contexts cfg os fc w path None (contexts cfg)) = None"
    unfolding rewrite_contexts_caller rewrite_contexts_found find_None_iff by blast
  then show "fst (rewrite cfg os fc path w) = Inr (orig_fs cfg @ path)"
    by (simp add: fst_rewrite apply_rule_no_rewrite)
next
  fix r :: rewrite_rule
  assume "snd (rewrite_contexts cfg os fc w path None (contexts cfg)) = Some r \<and> rewritten_path r = None"
  then show "fst (rewrite cfg os fc path w) = Inr (orig_fs cfg @ path)"
    by (simp add: fst_rewrite apply_rule_passthrough apply_rule_no_rewrite)
next
  fix r :: rewrite_rule
  assume "rewritten_path r = None"
  then show "apply_rule cfg os fc path (Some r) w = apply_rule cfg os fc path None w"
    by (rule apply_rule_passthrough)
qed

theorem no_rewrite_returns_root_and_path_witness:
  "fst (rewrite cfg_logs machine_os request0 ''/other'' machine0) = Inr ''/data/other''
   \<and> fst (rewrite cfg_logs machine_os request0 ''/logs'' machine0) = Inr ''/data/logs''
   \<and> apply_rule cfg_logs machine_os request0 ''/logs'' (Some rule_logs) machine0
       = apply_rule cfg_logs machine_os request0 ''/logs'' None machine0"
proof -
  have h1: "\<forall>ctx \<in> set (contexts cfg_logs). \<forall>r \<in> set (rules ctx).
              \<not> matches (filename_regexp r) (drop 1 ''/other'')"
    by code_simp
  have h2: "snd (rewrite_contexts cfg_logs machine_os request0 machine0 ''/logs'' None (contexts cfg_logs))
              = Some rule_logs \<and> rewritten_path rule_logs = None"
    by (simp add: cfg_logs_def rule_logs_def re_literal_def match_literal_def pcre_exec_def
          PCRE_ERROR_NOMATCH_def DEBUG_def)
  have h3: "rewritten_path rule_logs = None"
    by code_simp
  have root: "orig_fs cfg_logs = ''/data''"
    by (simp add: cfg_logs_def)
  note a = no_rewrite_returns_root_and_path [of cfg_logs "''/other''" machine_os request0 machine0]
  note b = no_rewrite_returns_root_and_path [of cfg_logs "''/logs''" machine_os request0 machine0]
  from a h1 have "fst (rewrite cfg_logs machine_os request0 ''/other'' machine0) = Inr (orig_fs cfg_logs @ ''/other'')"
    by blast
  moreover from b h2 have "fst (rewrite cfg_logs machine_os request0 ''/logs'' machine0) = Inr (orig_fs cfg_logs @ ''/logs'')"
    by blast
  moreover from b h3 have "apply_rule cfg_logs machine_os request0 ''/logs'' (Some rule_logs) machine0
       = apply_rule cfg_logs machine_os request0 ''/logs'' None machine0"
    by blast
  ultimately show ?thesis by (simp add: root)
qed

text \<open>
  Claim C10. When resolution ends with no rule or with a rule that has no template, the
  world after \<^verbatim>\<open>rewrite\<close> is the world before it, whatever \<^verbatim>\<open>autocreate\<close> is, and
  nothing that \<^verbatim>\<open>rewrite\<close> returns or prints depends on \<^verbatim>\<open>geteuid\<close>, \<^verbatim>\<open>getegid\<close>,
  \<^verbatim>\<open>seteuid\<close>, \<^verbatim>\<open>setegid\<close> or \<^verbatim>\<open>mkdir_parents\<close>: they are not called.
\<close>

theorem no_rewrite_no_autocreate:
  assumes "snd (rewrite_contexts cfg os fc w path None (contexts cfg)) = found"
    and "found = None \<or> (\<exists>r. found = Some r \<and> rewritten_path r = None)"
  shows "snd (snd (rewrite cfg os fc path w)) = w
     \<and> rewrite cfg (os\<lparr>os_geteuid := ge, os_getegid := gg, os_seteuid := se, os_setegid := sg,
          os_mkdir_parents := mk\<rparr>) fc path w = rewrite cfg os fc path w"
proof -
  let ?os = "os\<lparr>os_geteuid := ge, os_getegid := gg, os_seteuid := se, os_setegid := sg,
          os_mkdir_parents := mk\<rparr>"
  have same: "rewrite_contexts cfg ?os fc w path None (contexts cfg)
      = rewrite_contexts cfg os fc w path None (contexts cfg)"
    by (rule rewrite_contexts_fopen) simp
  have ap: "apply_rule cfg os' fc path found w = apply_rule cfg os fc path None w" for os' :: "'a os"
    using assms(2) by (auto simp: apply_rule_passthrough apply_rule_no_rewrite)
  have "snd (snd (rewrite cfg os fc path w)) = w"
    using assms(1) ap [of os] by (simp add: world_rewrite apply_rule_no_rewrite)
  moreover have "rewrite cfg ?os fc path w = rewrite cfg os fc path w"
  proof -
    obtain printed where rc: "rewrite_contexts cfg os fc w path None (contexts cfg) = (printed, found)"
      using assms(1) by (cases "rewrite_contexts cfg os fc w path None (contexts cfg)") auto
    show ?thesis
      by (simp add: rewrite_def same rc ap [of os] ap [of ?os])
  qed
  ultimately show ?thesis by simp
qed

theorem no_rewrite_no_autocreate_witness:
  "autocreate cfg_logs
   \<and> snd (snd (rewrite cfg_logs machine_os request0 ''/logs'' machine0)) = machine0
   \<and> snd (snd (rewrite cfg_logs machine_os request0 ''/other'' machine0)) = machine0"
proof -
  have h1: "snd (rewrite_contexts cfg_logs machine_os request0 machine0 ''/logs'' None (contexts cfg_logs)) = Some rule_logs"
    by (simp add: cfg_logs_def rule_logs_def re_literal_def match_literal_def pcre_exec_def
          PCRE_ERROR_NOMATCH_def DEBUG_def)
  have h2: "Some rule_logs = None \<or> (\<exists>r. Some rule_logs = Some r \<and> rewritten_path r = None)"
    by (simp add: rule_logs_def)
  have h3: "snd (rewrite_contexts cfg_logs machine_os request0 machine0 ''/other'' None (contexts cfg_logs)) = None"
    by code_simp
  have h4: "None = None \<or> (\<exists>r :: rewrite_rule. None = Some r \<and> rewritten_path r = None)"
    by simp
  show ?thesis
    using no_rewrite_no_autocreate [OF h1 h2] no_rewrite_no_autocreate [OF h3 h4]
    by (simp add: cfg_logs_def)
qed

subsection \<open>The order of contexts and rules\<close>

text \<open>
  Claim C3. Let the loop reach a context (every context before it is skipped, or entered
  with no rule matching) that is entered, and let \<open>r\<close> be the first of its rules, in
  declared order, whose pattern matches the request path without its leading \<^verbatim>\<open>/\<close>.
  Then \<^verbatim>\<open>rewrite\<close> passes \<open>r\<close> to \<^verbatim>\<open>apply_rule\<close>, and it returns, prints and leaves what it
  would with the later rules of the context and all later contexts removed: none of them
  is examined, whether or not they match.
\<close>

theorem first_matching_rule_wins:
  assumes "contexts cfg = before @ ctx # after"
    and "rules ctx = earlier @ r # later"
    and "\<forall>c \<in> set before. \<not> context_applies (get_caller_cmdline os fc w) c
           \<or> (\<forall>x \<in> set (rules c). \<not> matches (filename_regexp x) (drop 1 path))"
    and "context_applies (get_caller_cmdline os fc w) ctx"
    and "\<forall>x \<in> set earlier. \<not> matches (filename_regexp x) (drop 1 path)"
    and "matches (filename_regexp r) (drop 1 path)"
  shows "snd (rewrite_contexts cfg os fc w path None (contexts cfg)) = Some r
     \<and> fst (rewrite cfg os fc path w) = fst (apply_rule cfg os fc path (Some r) w)
     \<and> rewrite cfg os fc path w
         = rewrite (cfg\<lparr>contexts := before @ [ctx\<lparr>rules := earlier @ [r]\<rparr>]\<rparr>) os fc path w"
proof -
  let ?g = "get_caller_cmdline os fc w"
  let ?ctx' = "ctx\<lparr>rules := earlier @ [r]\<rparr>"
  let ?cfg' = "cfg\<lparr>contexts := before @ [?ctx']\<rparr>"
  have before: "snd (rewrite_contexts cfg os fc w path (Some ?g) before) = None"
    using assms(3) by (rule rewrite_contexts_skipped)
  have rs: "rewrite_rules cfg path (rules ctx) = rewrite_rules cfg path (earlier @ [r])"
    "snd (rewrite_rules cfg path (rules ctx)) = Some r"
    using rewrite_rules_first_match [OF assms(5,6)] assms(2) by simp_all
  have rs': "snd (rewrite_rules cfg path (rules ?ctx')) = Some r"
    using rewrite_rules_first_match(2) [OF assms(5,6), of cfg "[]"] by simp
  have ap': "context_applies ?g ?ctx'"
    using assms(4) by (simp add: context_applies_def)
  have one: "rewrite_contexts cfg os fc w path (Some ?g) [ctx]
      = rewrite_contexts cfg os fc w path (Some ?g) [?ctx']"
    using rs(1) by (simp add: Let_def split: option.splits)
  have tailq: "rewrite_contexts cfg os fc w path (Some ?g) (ctx # after)
      = rewrite_contexts cfg os fc w path (Some ?g) [?ctx']"
    using rewrite_contexts_hit(1) [OF assms(4) rs(2), of os fc w after] one by simp
  have all: "rewrite_contexts cfg os fc w path (Some ?g) (before @ ctx # after)
      = rewrite_contexts cfg os fc w path (Some ?g) (before @ [?ctx'])"
    unfolding rewrite_contexts_append [of cfg os fc w path ?g before] tailq ..
  obtain pb where pb: "rewrite_contexts cfg os fc w path (Some ?g) before = (pb, None)"
    using before by (cases "rewrite_contexts cfg os fc w path (Some ?g) before") auto
  obtain pc where pc: "rewrite_contexts cfg os fc w path (Some ?g) (ctx # after) = (pc, Some r)"
    using rewrite_contexts_hit(2) [OF assms(4) rs(2), of os fc w after]
    by (cases "rewrite_contexts cfg os fc w path (Some ?g) (ctx # after)") auto
  have found: "snd (rewrite_contexts cfg os fc w path (Some ?g) (before @ ctx # after)) = Some r"
    unfolding rewrite_contexts_append [of cfg os fc w path ?g before] pb pc by simp
  have same: "rewrite cfg os fc path w = rewrite ?cfg' os fc path w"
    unfolding rewrite_contexts_update
    by (simp add: rewrite_def assms(1) rewrite_contexts_caller all)
  have winner: "snd (rewrite_contexts cfg os fc w path None (contexts cfg)) = Some r"
    using found by (simp add: assms(1) rewrite_contexts_caller)
  have "fst (rewrite cfg os fc path w) = fst (apply_rule cfg os fc path (Some r) w)"
    by (simp add: fst_rewrite winner)
  with winner same show ?thesis
    by (intro conjI)
qed

theorem first_matching_rule_wins_witness:
  "fst (rewrite cfg_order machine_os request0 ''/foo/x'' machine1) = Inr ''/data/bar/x''
   \<and> matches (filename_regexp rule_foo2) (drop 1 ''/foo/x'')"
proof -
  have h1: "contexts cfg_order = [ctx_other] @ ctx_three # [ctx_last]"
    by (simp add: cfg_order_def)
  have h2: "rules ctx_three = [rule_logs] @ rule_foo # [rule_foo2]"
    by (simp add: ctx_three_def)
  have h3: "\<forall>c \<in> set [ctx_other]. \<not> context_applies (get_caller_cmdline machine_os request0 machine1) c
           \<or> (\<forall>x \<in> set (rules c). \<not> matches (filename_regexp x) (drop 1 ''/foo/x''))"
    unfolding caller1 by code_simp
  have h4: "context_applies (get_caller_cmdline machine_os request0 machine1) ctx_three"
    by (simp add: context_applies_def ctx_three_def)
  have h5: "\<forall>x \<in> set [rule_logs]. \<not> matches (filename_regexp x) (drop 1 ''/foo/x'')"
    by code_simp
  have h6: "matches (filename_regexp rule_foo) (drop 1 ''/foo/x'')"
    by code_simp
  have h7: "matches (filename_regexp rule_foo2) (drop 1 ''/foo/x'')"
    by code_simp
  have "fst (apply_rule cfg_order machine_os request0 ''/foo/x'' (Some rule_foo) machine1) = Inr ''/data/bar/x''"
    by code_simp
  with first_matching_rule_wins [OF h1 h2 h3 h4 h5 h6, THEN conjunct2, THEN conjunct1] h7
  show ?thesis
    by simp
qed

text \<open>
  Claim C4. A context whose command line pattern matches the caller but none of whose
  rules matches the path does not end the search: the rule found, the returned path and
  the world are those of the configuration without that context. The search goes on with
  the contexts after it in declared order: when the first of them that is entered with a
  matching rule is \<open>later\<close>, a context without a pattern or one whose pattern matches the
  caller as well, its first matching rule \<open>r\<close> is the rule that \<^verbatim>\<open>rewrite\<close> passes to
  \<^verbatim>\<open>apply_rule\<close>.
\<close>

theorem matching_context_falls_through:
  assumes "contexts cfg = before @ ctx # after"
    and "cmdline ctx = Some re"
    and "matches re (get_caller_cmdline os fc w)"
    and "\<forall>x \<in> set (rules ctx). \<not> matches (filename_regexp x) (drop 1 path)"
  shows "snd (rewrite_contexts cfg os fc w path None (contexts cfg))
           = snd (rewrite_contexts cfg os fc w path None (before @ after))
     \<and> fst (rewrite cfg os fc path w) = fst (rewrite (cfg\<lparr>contexts := before @ after\<rparr>) os fc path w)
     \<and> snd (snd (rewrite cfg os fc path w))
           = snd (snd (rewrite (cfg\<lparr>contexts := before @ after\<rparr>) os fc path w))
     \<and> (after = mid @ later # rest
        \<and> (\<forall>c \<in> set (before @ mid). \<not> context_applies (get_caller_cmdline os fc w) c
               \<or> (\<forall>x \<in> set (rules c). \<not> matches (filename_regexp x) (drop 1 path)))
        \<and> context_applies (get_caller_cmdline os fc w) later
        \<and> rules later = earlier @ r # others
        \<and> (\<forall>x \<in> set earlier. \<not> matches (filename_regexp x) (drop 1 path))
        \<and> matches (filename_regexp r) (drop 1 path)
        \<longrightarrow> snd (rewrite_contexts cfg os fc w path None (contexts cfg)) = Some r
          \<and> fst (rewrite cfg os fc path w) = fst (apply_rule cfg os fc path (Some r) w)
          \<and> snd (snd (rewrite cfg os fc path w)) = snd (snd (apply_rule cfg os fc path (Some r) w)))"
proof -
  let ?g = "get_caller_cmdline os fc w"
  let ?P = "\<lambda>r. matches (filename_regexp r) (drop 1 path)"
  have none: "List.find ?P (rules ctx) = None"
    using assms(4) by (simp add: find_None_iff)
  have "List.find ?P (concat (map rules (filter (context_applies ?g) (before @ ctx # after))))
      = List.find ?P (concat (map rules (filter (context_applies ?g) (before @ after))))"
    using none by (auto simp add: find_app split: option.splits)
  then have winner: "snd (rewrite_contexts cfg os fc w path None (contexts cfg))
           = snd (rewrite_contexts cfg os fc w path None (before @ after))"
    by (simp add: assms(1) rewrite_contexts_caller rewrite_contexts_found)
  then have same: "fst (rewrite cfg os fc path w) = fst (rewrite (cfg\<lparr>contexts := before @ after\<rparr>) os fc path w)
     \<and> snd (snd (rewrite cfg os fc path w))
           = snd (snd (rewrite (cfg\<lparr>contexts := before @ after\<rparr>) os fc path w))"
    by (simp add: fst_rewrite world_rewrite rewrite_contexts_verbose [of "cfg\<lparr>contexts := before @ after\<rparr>" cfg]
          apply_rule_contexts)
  have later: "snd (rewrite_contexts cfg os fc w path None (contexts cfg)) = Some r
          \<and> fst (rewrite cfg os fc path w) = fst (apply_rule cfg os fc path (Some r) w)
          \<and> snd (snd (rewrite cfg os fc path w)) = snd (snd (apply_rule cfg os fc path (Some r) w))"
    if a: "after = mid @ later # rest"
      and s: "\<forall>c \<in> set (before @ mid). \<not> context_applies ?g c \<or> (\<forall>x \<in> set (rules c). \<not> ?P x)"
      and l: "context_applies ?g later" "rules later = earlier @ r # others"
        "\<forall>x \<in> set earlier. \<not> ?P x" "?P r"
  proof -
    have cs: "contexts cfg = (before @ ctx # mid) @ later # rest"
      using assms(1) a by simp
    have "\<forall>c \<in> set (before @ ctx # mid). \<not> context_applies ?g c \<or> (\<forall>x \<in> set (rules c). \<not> ?P x)"
      using s assms(4) by auto
    from rewrite_contexts_winner [OF this l, of cfg os fc w rest]
    have "snd (rewrite_contexts cfg os fc w path None (contexts cfg)) = Some r"
      unfolding cs rewrite_contexts_caller [of cfg os fc w path "(before @ ctx # mid) @ later # rest"] .
    then show ?thesis
      by (simp add: fst_rewrite world_rewrite)
  qed
  from winner same later show ?thesis
    by blast
qed

theorem matching_context_falls_through_witness:
  "fst (rewrite cfg_fall machine_os request0 ''/foo/x'' machine1) = Inr ''/data/baz/x''
   \<and> fst (rewrite cfg_fall_caller machine_os request0 ''/foo/x'' machine1) = Inr ''/data/bar/x''
   \<and> cmdline ctx_my = Some (re_starts_with ''my'')
   \<and> matches (re_starts_with ''my'') (get_caller_cmdline machine_os request0 machine1)"
proof -
  have h1: "contexts cfg_fall = [] @ ctx_myapp # [ctx_last]"
    by (simp add: cfg_fall_def)
  have h2: "cmdline ctx_myapp = Some (re_starts_with ''myapp'')"
    by (simp add: ctx_myapp_def)
  have h3: "matches (re_starts_with ''myapp'') (get_caller_cmdline machine_os request0 machine1)"
    unfolding caller1 by code_simp
  have h4: "\<forall>x \<in> set (rules ctx_myapp). \<not> matches (filename_regexp x) (drop 1 ''/foo/x'')"
    by code_simp
  have "fst (rewrite (cfg_fall\<lparr>contexts := [] @ [ctx_last]\<rparr>) machine_os request0 ''/foo/x'' machine1)
      = Inr ''/data/baz/x''"
    by code_simp
  with matching_context_falls_through [OF h1 h2 h3 h4, THEN conjunct2, THEN conjunct1]
  have one: "fst (rewrite cfg_fall machine_os request0 ''/foo/x'' machine1) = Inr ''/data/baz/x''"
    by simp
  have k1: "contexts cfg_fall_caller = [] @ ctx_myapp # [ctx_my, ctx_last]"
    by (simp add: cfg_fall_caller_def)
  have k5: "[ctx_my, ctx_last] = [] @ ctx_my # [ctx_last]"
    by simp
  have k6: "\<forall>c \<in> set ([] @ []). \<not> context_applies (get_caller_cmdline machine_os request0 machine1) c
               \<or> (\<forall>x \<in> set (rules c). \<not> matches (filename_regexp x) (drop 1 ''/foo/x''))"
    by simp
  have my: "cmdline ctx_my = Some (re_starts_with ''my'')"
    by (simp add: ctx_my_def)
  have m: "matches (re_starts_with ''my'') (get_caller_cmdline machine_os request0 machine1)"
    unfolding caller1 by code_simp
  have k7: "context_applies (get_caller_cmdline machine_os request0 machine1) ctx_my"
    using m by (simp add: context_applies_def my)
  have k8: "rules ctx_my = [] @ rule_foo # []"
    by (simp add: ctx_my_def)
  have k9: "\<forall>x \<in> set []. \<not> matches (filename_regexp x) (drop 1 ''/foo/x'')"
    by simp
  have k10: "matches (filename_regexp rule_foo) (drop 1 ''/foo/x'')"
    by code_simp
  have ap: "fst (apply_rule cfg_fall_caller machine_os request0 ''/foo/x'' (Some rule_foo) machine1)
      = Inr ''/data/bar/x''"
    by code_simp
  from matching_context_falls_through [OF k1 h2 h3 h4, THEN conjunct2, THEN conjunct2, THEN conjunct2,
      THEN mp, OF conjI [OF k5 conjI [OF k6 conjI [OF k7 conjI [OF k8 conjI [OF k9 k10]]]]],
      THEN conjunct2, THEN conjunct1]
  have two: "fst (rewrite cfg_fall_caller machine_os request0 ''/foo/x'' machine1) = Inr ''/data/bar/x''"
    unfolding ap .
  from one two my m show ?thesis
    by (intro conjI)
qed

subsection \<open>Errors of the regular expression engine\<close>

lemma raw_without_engine_errors: "raw (without_engine_errors re) = raw re"
  by (simp add: without_engine_errors_def)

lemma captures_without_engine_errors: "captures (without_engine_errors re) = captures re"
  by (simp add: without_engine_errors_def)

lemma DEBUG_no_warning:
  "\<not> is_pcre_warning ev \<Longrightarrow>
   filter (\<lambda>e. \<not> is_pcre_warning e) (DEBUG cfg lvl ev) = DEBUG cfg lvl ev"
  by (cases "lvl \<le> verbose cfg") (simp_all add: DEBUG_def)

lemma pcre_exec_clean:
  "fst (pcre_exec (without_engine_errors re) subject n) =
     (if fst (pcre_exec re subject n) < PCRE_ERROR_NOMATCH then PCRE_ERROR_NOMATCH
      else fst (pcre_exec re subject n))"
  by (simp add: pcre_exec_def without_engine_errors_def PCRE_ERROR_NOMATCH_def Let_def
        split: match_result.splits)

lemma pcre_exec_clean_vector:
  "snd (pcre_exec (without_engine_errors re) subject n) = snd (pcre_exec re subject n)"
  by (simp add: pcre_exec_def without_engine_errors_def Let_def split: match_result.splits)

lemma rewrite_rules_clean:
  "rewrite_rules cfg path (map clean_rule rs) =
     (filter (\<lambda>e. \<not> is_pcre_warning e) (fst (rewrite_rules cfg path rs)),
      map_option clean_rule (snd (rewrite_rules cfg path rs)))"
proof (induction rs)
  case Nil
  show ?case by simp
next
  case (Cons r rs)
  have raw: "raw (filename_regexp (clean_rule r)) = raw (filename_regexp r)"
    "rewritten_path (clean_rule r) = rewritten_path r"
    "filename_regexp (clean_rule r) = without_engine_errors (filename_regexp r)"
    by (simp_all add: clean_rule_def without_engine_errors_def)
  show ?case
    using Cons.IH
    by (simp add: Let_def raw pcre_exec_clean DEBUG_no_warning PCRE_ERROR_NOMATCH_def
          raw_without_engine_errors captures_without_engine_errors split: prod.splits)
qed

lemma rewrite_contexts_clean:
  "rewrite_contexts cfg os fc w path (Some g) (map clean_context cs) =
     (filter (\<lambda>e. \<not> is_pcre_warning e) (fst (rewrite_contexts cfg os fc w path (Some g) cs)),
      map_option clean_rule (snd (rewrite_contexts cfg os fc w path (Some g) cs)))"
proof (induction cs)
  case Nil
  show ?case by simp
next
  case (Cons ctx cs)
  have c: "cmdline (clean_context ctx) = map_option without_engine_errors (cmdline ctx)"
    "rules (clean_context ctx) = map clean_rule (rules ctx)"
    by (simp_all add: clean_context_def)
  show ?case
  proof (cases "cmdline ctx")
    case None
    then show ?thesis
      using Cons.IH
      by (simp add: c rewrite_rules_clean DEBUG_no_warning split: prod.splits option.splits)
  next
    case (Some re)
    then show ?thesis
      using Cons.IH
      by (simp add: c rewrite_rules_clean DEBUG_no_warning Let_def pcre_exec_clean
            PCRE_ERROR_NOMATCH_def raw_without_engine_errors captures_without_engine_errors split: prod.splits option.splits)
  qed
qed

lemma get_substring_negative_count:
  "scount < 0 \<Longrightarrow> scount' < 0 \<Longrightarrow> 1 \<le> i \<Longrightarrow>
   pcre_get_substring subject ovector scount (int i) = pcre_get_substring subject ovector scount' (int i)"
  by (simp add: pcre_get_substring_def)

lemma replace_backreferences_negative_count:
  "scount < 0 \<Longrightarrow> scount' < 0 \<Longrightarrow> \<forall>i \<in> set ns. 1 \<le> i \<Longrightarrow>
   replace_backreferences subject ovector scount ns acc
     = replace_backreferences subject ovector scount' ns acc"
  by (induction ns arbitrary: acc)
     (auto simp: get_substring_negative_count [of scount scount'] split: prod.splits)

lemma apply_rule_rewrite_clean:
  "apply_rule_rewrite cfg os fc path (without_engine_errors re) template w
     = apply_rule_rewrite cfg os fc path re template w"
proof -
  let ?n = "(captures re + 1) * 3"
  have 4: "replace_backreferences (drop 1 path) ovector
           (fst (pcre_exec (without_engine_errors re) (drop 1 path) ?n)) [1 ..< Suc (captures re)] t
         = replace_backreferences (drop 1 path) ovector
           (fst (pcre_exec re (drop 1 path) ?n)) [1 ..< Suc (captures re)] t" for t ovector
  proof (cases "fst (pcre_exec re (drop 1 path) ?n) < PCRE_ERROR_NOMATCH")
    case True
    have "\<forall>i \<in> set [1 ..< Suc (captures re)]. 1 \<le> i"
      by auto
    then show ?thesis
      unfolding pcre_exec_clean using True
      by (intro replace_backreferences_negative_count) (simp_all add: PCRE_ERROR_NOMATCH_def)
  next
    case False
    then show ?thesis
      unfolding pcre_exec_clean by simp
  qed
  show ?thesis
    unfolding apply_rule_rewrite_def Let_def case_prod_beta captures_without_engine_errors
      pcre_exec_clean_vector 4 ..
qed

lemma apply_rule_clean:
  "apply_rule cfg os fc path (map_option clean_rule found) w = apply_rule cfg os fc path found w"
  by (cases found)
     (simp_all add: apply_rule_def clean_rule_def apply_rule_rewrite_clean split: option.splits)

lemma autocreate_parents_no_pcre_warning:
  "filter (\<lambda>e. \<not> is_pcre_warning e) (fst (autocreate_parents os fc path rewritten w))
     = fst (autocreate_parents os fc path rewritten w)"
  by (simp add: autocreate_parents_def Let_def split: prod.splits)

lemma apply_rule_no_pcre_warning:
  "filter (\<lambda>e. \<not> is_pcre_warning e) (fst (snd (apply_rule cfg os fc path found w)))
     = fst (snd (apply_rule cfg os fc path found w))"
proof -
  have a: "filter (\<lambda>e. \<not> is_pcre_warning e) printed = printed"
    if "(if autocreate cfg then autocreate_parents os fc path rewritten w else ([], w)) = (printed, w')"
    for rewritten printed w'
    using that autocreate_parents_no_pcre_warning [of os fc path rewritten w]
    by (auto split: if_splits)
  have "filter (\<lambda>e. \<not> is_pcre_warning e) (fst (snd (apply_rule_ignored cfg path w)))
      = fst (snd (apply_rule_ignored cfg path w))"
    by (simp add: apply_rule_ignored_def DEBUG_no_warning Let_def)
  moreover have "filter (\<lambda>e. \<not> is_pcre_warning e) (fst (snd (apply_rule_rewrite cfg os fc path re t w)))
      = fst (snd (apply_rule_rewrite cfg os fc path re t w))" for re t
    by (auto simp: apply_rule_rewrite_def DEBUG_no_warning Let_def a split: sum.splits prod.splits)
  ultimately show ?thesis
    by (simp add: apply_rule_def split: option.splits)
qed

lemma rewrite_clean:
  "rewrite (cfg\<lparr>contexts := map clean_context (contexts cfg)\<rparr>) os fc path w =
     (case rewrite cfg os fc path w of
        (result, printed, w') \<Rightarrow> (result, filter (\<lambda>e. \<not> is_pcre_warning e) printed, w'))"
proof -
  let ?g = "get_caller_cmdline os fc w"
  obtain printed found where rc: "rewrite_contexts cfg os fc w path (Some ?g) (contexts cfg) = (printed, found)"
    by (cases "rewrite_contexts cfg os fc w path (Some ?g) (contexts cfg)")
  obtain result printed' w' where ap: "apply_rule cfg os fc path found w = (result, printed', w')"
    by (cases "apply_rule cfg os fc path found w")
  have f: "filter (\<lambda>e. \<not> is_pcre_warning e) printed' = printed'"
    using apply_rule_no_pcre_warning [of cfg os fc path found w] ap by simp
  show ?thesis
    unfolding rewrite_contexts_update
    by (simp add: rewrite_def rewrite_contexts_caller rewrite_contexts_clean rc apply_rule_clean ap f
          DEBUG_no_warning)
qed

text \<open>
  Claim C9. A match attempt that returns an engine error (a code below
  \<^verbatim>\<open>PCRE_ERROR_NOMATCH\<close>) on a rule's pattern, or on a context's command line pattern,
  continues exactly as an attempt that returns \<^verbatim>\<open>PCRE_ERROR_NOMATCH\<close>: the rule is
  passed over (the context is skipped) and the same trace line is printed; but the error
  puts one more line first, the warning with the code, which a clean no-match does not
  print. So \<^verbatim>\<open>rewrite\<close> on a configuration returns and leaves what it does when every
  engine error is a clean no-match instead, and prints the same lines and the warnings.
\<close>

theorem engine_error_is_no_match_with_warning:
  "(matcher (filename_regexp rule) (drop 1 path) = EngineError n \<longrightarrow>
      rewrite_rules cfg path (rule # rest)
        = (Warning_pcre_exec (- 2 - int n) # DEBUG cfg 3 (Rule_nomatch (raw (filename_regexp rule)))
             @ fst (rewrite_rules cfg path rest),
           snd (rewrite_rules cfg path rest)))
   \<and> (matcher (filename_regexp rule) (drop 1 path) = NoMatch \<longrightarrow>
      rewrite_rules cfg path (rule # rest)
        = (DEBUG cfg 3 (Rule_nomatch (raw (filename_regexp rule))) @ fst (rewrite_rules cfg path rest),
           snd (rewrite_rules cfg path rest)))
   \<and> (cmdline ctx = Some re \<and> matcher re (get_caller_cmdline os fc w) = EngineError n \<longrightarrow>
      rewrite_contexts cfg os fc w path None (ctx # others)
        = (Warning_pcre_exec (- 2 - int n) # DEBUG cfg 3 (Ctx_nomatch (raw re))
             @ fst (rewrite_contexts cfg os fc w path None others),
           snd (rewrite_contexts cfg os fc w path None others)))
   \<and> (cmdline ctx = Some re \<and> matcher re (get_caller_cmdline os fc w) = NoMatch \<longrightarrow>
      rewrite_contexts cfg os fc w path None (ctx # others)
        = (DEBUG cfg 3 (Ctx_nomatch (raw re)) @ fst (rewrite_contexts cfg os fc w path None others),
           snd (rewrite_contexts cfg os fc w path None others)))
   \<and> rewrite (cfg\<lparr>contexts := map clean_context (contexts cfg)\<rparr>) os fc path w
       = (case rewrite cfg os fc path w of
            (result, printed, w') \<Rightarrow> (result, filter (\<lambda>e. \<not> is_pcre_warning e) printed, w'))"
proof -
  have "rewrite (cfg\<lparr>contexts := map clean_context (contexts cfg)\<rparr>) os fc path w
       = (case rewrite cfg os fc path w of
            (result, printed, w') \<Rightarrow> (result, filter (\<lambda>e. \<not> is_pcre_warning e) printed, w'))"
    by (rule rewrite_clean)
  then show ?thesis
    by (simp add: pcre_exec_def PCRE_ERROR_NOMATCH_def Let_def
          rewrite_contexts_caller [of _ _ _ _ _ others] split: prod.splits)
qed

theorem engine_error_is_no_match_with_warning_witness:
  "rewrite_rules cfg_order ''/foo/x'' [rule_failing, rule_foo] = ([Warning_pcre_exec (- 8)], Some rule_foo)
   \<and> rewrite_rules cfg_order ''/foo/x'' [rule_logs, rule_foo] = ([], Some rule_foo)
   \<and> rewrite_contexts cfg_order machine_os request0 machine1 ''/foo/x'' None [ctx_failing, ctx_last]
        = ([Warning_pcre_exec (- 8)], Some rule_foo2)
   \<and> rewrite_contexts cfg_order machine_os request0 machine1 ''/foo/x'' None [ctx_nomatch, ctx_last]
        = ([], Some rule_foo2)"
proof -
  note t = engine_error_is_no_match_with_warning
  have h1: "matcher (filename_regexp rule_failing) (drop 1 ''/foo/x'') = EngineError 6"
    by (simp add: rule_failing_def re_failing_def)
  have h2: "matcher (filename_regexp rule_logs) (drop 1 ''/foo/x'') = NoMatch"
    by (simp add: rule_logs_def re_literal_def match_literal_def)
  have h3: "cmdline ctx_failing = Some re_failing
      \<and> matcher re_failing (get_caller_cmdline machine_os request0 machine1) = EngineError 6"
    by (simp add: ctx_failing_def re_failing_def)
  have h4: "cmdline ctx_nomatch = Some (re_starts_with ''other'')
      \<and> matcher (re_starts_with ''other'') (get_caller_cmdline machine_os request0 machine1) = NoMatch"
    unfolding caller1 by (simp add: ctx_nomatch_def re_starts_with_def match_starts_with_def)
  have r: "rewrite_rules cfg_order ''/foo/x'' [rule_foo] = ([], Some rule_foo)"
    by (simp add: cfg_order_def rule_foo_def re_foo_rest_def match_foo_rest_def pcre_exec_def
          DEBUG_def newline_def)
  have c: "rewrite_contexts cfg_order machine_os request0 machine1 ''/foo/x'' None [ctx_last]
      = ([], Some rule_foo2)"
    by (simp add: cfg_order_def ctx_last_def rule_foo2_def re_foo_rest_def match_foo_rest_def
          pcre_exec_def DEBUG_def newline_def)
  have d: "DEBUG cfg_order 3 x = []" for x
    by (simp add: DEBUG_def cfg_order_def)
  note t1 = t [THEN conjunct1, THEN mp, OF h1]
  note t2 = t [THEN conjunct2, THEN conjunct1, THEN mp, OF h2]
  note t3 = t [THEN conjunct2, THEN conjunct2, THEN conjunct1, THEN mp, OF h3]
  note t4 = t [THEN conjunct2, THEN conjunct2, THEN conjunct2, THEN conjunct1, THEN mp, OF h4]
  have "rewrite_rules cfg_order ''/foo/x'' [rule_failing, rule_foo] = ([Warning_pcre_exec (- 8)], Some rule_foo)"
    unfolding t1 [of cfg_order "[rule_foo]"] r d by simp
  moreover
  have "rewrite_rules cfg_order ''/foo/x'' [rule_logs, rule_foo] = ([], Some rule_foo)"
    unfolding t2 [of cfg_order "[rule_foo]"] r d by simp
  moreover
  have "rewrite_contexts cfg_order machine_os request0 machine1 ''/foo/x'' None [ctx_failing, ctx_last]
        = ([Warning_pcre_exec (- 8)], Some rule_foo2)"
    unfolding t3 [of cfg_order "''/foo/x''" "[ctx_last]"] c d by simp
  moreover 
  have "rewrite_contexts cfg_order machine_os request0 machine1 ''/foo/x'' None [ctx_nomatch, ctx_last]
        = ([], Some rule_foo2)"
    unfolding t4 [of cfg_order "''/foo/x''" "[ctx_last]"] c d by simp
  ultimately show ?thesis by blast
qed

subsection \<open>The loop that replaces backreferences\<close>

lemma flat_nth:
  "i < length ps \<Longrightarrow>
     concat (map (\<lambda>(s, e). [s, e]) ps) ! (2 * i) = fst (ps ! i)
   \<and> concat (map (\<lambda>(s, e). [s, e]) ps) ! (2 * i + 1) = snd (ps ! i)"
proof (induction ps arbitrary: i)
  case Nil
  then show ?case by simp
next
  case (Cons p ps)
  show ?case
  proof (cases i)
    case 0
    then show ?thesis by (simp split: prod.splits)
  next
    case (Suc j)
    with Cons.prems have "j < length ps" by simp
    from Cons.IH [OF this] Suc show ?thesis by (simp split: prod.splits)
  qed
qed

lemma pcre_exec_matched:
  assumes "matcher re subject = Matched whole groups" and "length groups \<le> captures re"
  shows "pcre_exec re subject ((captures re + 1) * 3)
    = (1 + int (length groups),
       concat (map (\<lambda>(s, e). [s, e]) (whole # groups))
         @ replicate ((captures re + 1) * 3 - 2 * (1 + length groups)) 0)"
proof -
  have len: "length (concat (map (\<lambda>(s, e). [s, e]) ps)) = 2 * length ps" for ps :: "(int \<times> int) list"
    by (induction ps) (auto split: prod.splits)
  show ?thesis
    using assms len [of "whole # groups"]
    by (simp add: pcre_exec_def Let_def del: concat.simps map_eq_conv)
qed

lemma get_substring_group:
  assumes "1 \<le> i" and "i \<le> length groups"
  shows "pcre_get_substring subject (concat (map (\<lambda>(s, e). [s, e]) (whole # groups)) @ pad)
           (1 + int (length groups)) (int i)
         = (snd (groups ! (i - 1)) - fst (groups ! (i - 1)), group_text subject (groups ! (i - 1)))"
proof -
  let ?ps = "whole # groups"
  let ?flat = "concat (map (\<lambda>(s, e). [s, e]) ?ps)"
  have len: "length (concat (map (\<lambda>(s, e). [s, e]) ps)) = 2 * length ps" for ps :: "(int \<times> int) list"
    by (induction ps) (auto split: prod.splits)
  have i: "i < length ?ps" using assms by simp
  have at: "?ps ! i = groups ! (i - 1)"
    using assms by (cases i) simp_all
  have a: "(?flat @ pad) ! (2 * i) = fst (groups ! (i - 1))"
    using flat_nth [OF i] i len [of ?ps] at by (simp add: nth_append del: concat.simps map_eq_conv list.map)
  have b: "(?flat @ pad) ! (2 * i + 1) = snd (groups ! (i - 1))"
    using flat_nth [OF i] i len [of ?ps] at by (simp add: nth_append del: concat.simps map_eq_conv list.map)
  have n0: "nat (2 * int i) = 2 * i" and n1: "nat (2 * int i + 1) = 2 * i + 1"
    by simp_all
  show ?thesis
    using assms a b
    unfolding pcre_get_substring_def Let_def n0 n1 group_text_def
    by simp
qed

lemma get_substring_missing:
  "scount \<le> int i \<Longrightarrow> pcre_get_substring subject ovector scount (int i) = (PCRE_ERROR_NOSUBSTRING, [])"
  by (simp add: pcre_get_substring_def)

lemma replace_backreferences_abort:
  "i \<in> set ns \<Longrightarrow> fst (pcre_get_substring subject ovector scount (int i)) < 0 \<Longrightarrow>
   replace_backreferences subject ovector scount ns acc = Inl Assertion_failed"
proof (induction ns arbitrary: acc)
  case Nil
  then show ?case by simp
next
  case (Cons n ns)
  show ?case
  proof (cases "fst (pcre_get_substring subject ovector scount (int n)) < 0")
    case True
    then show ?thesis by (auto split: prod.splits)
  next
    case False
    with Cons.prems have "i \<in> set ns" by auto
    from Cons.IH [OF this Cons.prems(2)] False show ?thesis
      by (auto split: prod.splits)
  qed
qed

lemma replace_backreferences_fold:
  assumes "\<forall>i \<in> set ns. 1 \<le> i \<and> i \<le> length groups \<and> fst (groups ! (i - 1)) \<le> snd (groups ! (i - 1))"
  shows "replace_backreferences subject (concat (map (\<lambda>(s, e). [s, e]) (whole # groups)) @ pad)
           (1 + int (length groups)) ns acc
         = Inr (foldl (substitute_group subject groups) acc ns)"
  using assms
proof (induction ns arbitrary: acc)
  case Nil
  show ?case by simp
next
  case (Cons n ns)
  then have n: "1 \<le> n" "n \<le> length groups" "fst (groups ! (n - 1)) \<le> snd (groups ! (n - 1))"
    by simp_all
  have rest: "\<forall>i \<in> set ns. 1 \<le> i \<and> i \<le> length groups \<and> fst (groups ! (i - 1)) \<le> snd (groups ! (i - 1))"
    using Cons.prems by simp
  show ?case
    unfolding replace_backreferences.simps get_substring_group [OF n(1,2)]
    using n(3) Cons.IH [OF rest] by (simp add: substitute_group_def)
qed

lemma fst_apply_rule_template:
  assumes "rewritten_path r = Some t"
    and "pcre_exec (filename_regexp r) (drop 1 path) ((captures (filename_regexp r) + 1) * 3) = (scount, ovector)"
  shows "fst (apply_rule cfg os fc path (Some r) w) =
     (case replace_backreferences (drop 1 path) ovector scount [1 ..< Suc (captures (filename_regexp r))] t of
        Inl e \<Rightarrow> Inl e
      | Inr rp \<Rightarrow> Inr (orig_fs cfg @ take (nat (1 + ovector ! 0)) path @ rp
                        @ drop (nat (1 + ovector ! 1)) path))"
  using assms
  by (simp add: apply_rule_def apply_rule_rewrite_def Let_def split: sum.splits prod.splits)

lemma fst_apply_rule_matched:
  assumes "rewritten_path r = Some t"
    and "matcher (filename_regexp r) (drop 1 path) = Matched (s, e) groups"
    and "length groups = captures (filename_regexp r)"
    and "\<forall>p \<in> set groups. fst p \<le> snd p"
  shows "fst (apply_rule cfg os fc path (Some r) w) =
     Inr (orig_fs cfg @ take (nat (1 + s)) path
          @ foldl (substitute_group (drop 1 path) groups) t [1 ..< Suc (captures (filename_regexp r))]
          @ drop (nat (1 + e)) path)"
proof -
  let ?re = "filename_regexp r"
  let ?pad = "replicate ((captures ?re + 1) * 3 - 2 * (1 + length groups)) (0 :: int)"
  let ?ov = "concat (map (\<lambda>(s, e). [s, e]) ((s, e) # groups)) @ ?pad"
  have ex: "pcre_exec ?re (drop 1 path) ((captures ?re + 1) * 3) = (1 + int (length groups), ?ov)"
    using pcre_exec_matched [OF assms(2)] assms(3) by simp
  have ok: "\<forall>i \<in> set [1 ..< Suc (captures ?re)].
      1 \<le> i \<and> i \<le> length groups \<and> fst (groups ! (i - 1)) \<le> snd (groups ! (i - 1))"
    using assms(3,4) by auto
  have ov0: "?ov ! 0 = s" and ov1: "?ov ! 1 = e"
    by simp_all
  show ?thesis
    unfolding fst_apply_rule_template [OF assms(1) ex] replace_backreferences_fold [OF ok] ov0 ov1
    by simp
qed

lemma apply_rule_abort_iff:
  assumes "rewritten_path r = Some t"
    and "matcher (filename_regexp r) (drop 1 path) = Matched whole groups"
    and "length groups \<le> captures (filename_regexp r)"
    and "\<forall>p \<in> set groups. fst p \<le> snd p"
  shows "fst (apply_rule cfg os fc path (Some r) w) = Inl Assertion_failed
         \<longleftrightarrow> length groups < captures (filename_regexp r)"
proof (cases "length groups < captures (filename_regexp r)")
  case True
  let ?re = "filename_regexp r"
  obtain scount ovector where
    ex: "pcre_exec ?re (drop 1 path) ((captures ?re + 1) * 3) = (scount, ovector)"
    and sc: "scount = 1 + int (length groups)"
    using pcre_exec_matched [OF assms(2,3)] by simp
  have i: "Suc (length groups) \<in> set [1 ..< Suc (captures ?re)]"
    using True by auto
  have "fst (pcre_get_substring (drop 1 path) ovector scount (int (Suc (length groups)))) < 0"
    using get_substring_missing [of scount "Suc (length groups)"] sc
    by (simp add: PCRE_ERROR_NOSUBSTRING_def)
  from replace_backreferences_abort [OF i this] True show ?thesis
    unfolding fst_apply_rule_template [OF assms(1) ex] by simp
next
  case False
  with assms(3) have all: "length groups = captures (filename_regexp r)" by simp
  have m: "matcher (filename_regexp r) (drop 1 path) = Matched (fst whole, snd whole) groups"
    using assms(2) by simp
  from fst_apply_rule_matched [OF assms(1) m all assms(4), of cfg os fc w] False
  show ?thesis by simp
qed

text \<open>
  Claim C6, amended. Let \<^verbatim>\<open>rewrite\<close> pass to \<^verbatim>\<open>apply_rule\<close> a rule with a template, and let
  the groups of the match end no earlier than they start. A token \<^verbatim>\<open>\N\<close> of the template
  for a group \<open>N\<close> of the pattern that the match does not report, a group after the last one
  that took part, aborts resolution on \<^verbatim>\<open>assert(substr_len >= 0)\<close>. When the match reports
  every group of the pattern, resolution does not abort, whatever the template holds: the
  rounds for the groups 1 to the capture count each replace the token of their group in
  the string so far by the text of the group, no round is run for a greater \<open>N\<close>, and for
  a group that did not take part, with the offsets \<open>(-1, -1)\<close>, the text is empty.
\<close>

theorem unreported_group_token_aborts:
  assumes "snd (rewrite_contexts cfg os fc w path None (contexts cfg)) = Some r"
    and "rewritten_path r = Some t"
    and "matcher (filename_regexp r) (drop 1 path) = Matched whole groups"
    and "length groups \<le> captures (filename_regexp r)"
    and "\<forall>p \<in> set groups. fst p \<le> snd p"
  shows "(length groups < N \<and> N \<le> captures (filename_regexp r) \<and> t = pre @ backslash # decimal N @ post
            \<longrightarrow> fst (rewrite cfg os fc path w) = Inl Assertion_failed)
     \<and> (length groups = captures (filename_regexp r)
            \<longrightarrow> fst (rewrite cfg os fc path w)
                = Inr (orig_fs cfg @ take (nat (1 + fst whole)) path
                       @ foldl (substitute_group (drop 1 path) groups) t
                           [1 ..< Suc (captures (filename_regexp r))]
                       @ drop (nat (1 + snd whole)) path))
     \<and> (1 \<le> i \<and> i \<le> length groups \<and> groups ! (i - 1) = (- 1, - 1)
            \<longrightarrow> substitute_group (drop 1 path) groups acc i = string_replace acc (backslash # decimal i) [])"
proof (intro conjI impI)
  assume "length groups < N \<and> N \<le> captures (filename_regexp r) \<and> t = pre @ backslash # decimal N @ post"
  then have "length groups < captures (filename_regexp r)"
    by simp
  with apply_rule_abort_iff [OF assms(2,3,4,5), of cfg os fc w] assms(1)
  show "fst (rewrite cfg os fc path w) = Inl Assertion_failed"
    by (simp add: fst_rewrite)
next
  assume all: "length groups = captures (filename_regexp r)"
  have m: "matcher (filename_regexp r) (drop 1 path) = Matched (fst whole, snd whole) groups"
    using assms(3) by simp
  from fst_apply_rule_matched [OF assms(2) m all assms(5), of cfg os fc w] assms(1)
  show "fst (rewrite cfg os fc path w)
      = Inr (orig_fs cfg @ take (nat (1 + fst whole)) path
             @ foldl (substitute_group (drop 1 path) groups) t [1 ..< Suc (captures (filename_regexp r))]
             @ drop (nat (1 + snd whole)) path)"
    by (simp add: fst_rewrite)
next
  assume "1 \<le> i \<and> i \<le> length groups \<and> groups ! (i - 1) = (- 1, - 1)"
  then show "substitute_group (drop 1 path) groups acc i = string_replace acc (backslash # decimal i) []"
    by (simp add: substitute_group_def group_text_def)
qed

theorem unreported_group_token_aborts_witness:
  "fst (rewrite cfg_optional_last_token machine_os request0 ''/a'' machine0) = Inl Assertion_failed
   \<and> matcher re_optional_last (drop 1 ''/a'') = Matched (0, 1) []
   \<and> captures re_optional_last = 1
   \<and> fst (rewrite cfg_optional_first machine_os request0 ''/b'' machine0) = Inr ''/data/xy''
   \<and> matcher re_optional_first (drop 1 ''/b'') = Matched (0, 1) [(- 1, - 1), (0, 1)]
   \<and> substitute_group (drop 1 ''/b'') [(- 1, - 1), (0, 1)] (''x'' @ [backslash] @ ''1y'') 1 = ''xy''"
proof -
  let ?last = "\<lparr> filename_regexp = re_optional_last, rewritten_path = Some (''c'' @ [backslash] @ ''1'') \<rparr>"
  let ?first = "\<lparr> filename_regexp = re_optional_first, rewritten_path = Some (''x'' @ [backslash] @ ''1y'') \<rparr>"
  have a1: "snd (rewrite_contexts cfg_optional_last_token machine_os request0 machine0 ''/a'' None
              (contexts cfg_optional_last_token)) = Some ?last"
    by (simp add: cfg_optional_last_token_def one_rule_def re_optional_last_def match_optional_last_def
          pcre_exec_def PCRE_ERROR_NOMATCH_def DEBUG_def newline_def)
  have a2: "rewritten_path ?last = Some (''c'' @ [backslash] @ ''1'')"
    by simp
  have a3: "matcher (filename_regexp ?last) (drop 1 ''/a'') = Matched (0, 1) []"
    by (simp add: re_optional_last_def match_optional_last_def newline_def)
  have a4: "length ([] :: (int \<times> int) list) \<le> captures (filename_regexp ?last)"
    by simp
  have a5: "\<forall>p \<in> set ([] :: (int \<times> int) list). fst p \<le> snd p"
    by simp
  have a6: "length ([] :: (int \<times> int) list) < 1 \<and> 1 \<le> captures (filename_regexp ?last)
      \<and> ''c'' @ [backslash] @ ''1'' = ''c'' @ backslash # decimal 1 @ []"
  proof -
    have "decimal 1 = ''1''"
      by code_simp
    then show ?thesis
      by (simp add: re_optional_last_def)
  qed
  have b1: "snd (rewrite_contexts cfg_optional_first machine_os request0 machine0 ''/b'' None
              (contexts cfg_optional_first)) = Some ?first"
    by (simp add: cfg_optional_first_def one_rule_def re_optional_first_def match_optional_first_def
          pcre_exec_def PCRE_ERROR_NOMATCH_def DEBUG_def newline_def)
  have b2: "rewritten_path ?first = Some (''x'' @ [backslash] @ ''1y'')"
    by simp
  have b3: "matcher (filename_regexp ?first) (drop 1 ''/b'') = Matched (0, 1) [(- 1, - 1), (0, 1)]"
    by (simp add: re_optional_first_def match_optional_first_def newline_def)
  have b4: "length [(- 1 :: int, - 1 :: int), (0, 1)] \<le> captures (filename_regexp ?first)"
    by (simp add: re_optional_first_def)
  have b5: "\<forall>p \<in> set [(- 1 :: int, - 1 :: int), (0, 1)]. fst p \<le> snd p"
    by simp
  have b6: "length [(- 1 :: int, - 1 :: int), (0, 1)] = captures (filename_regexp ?first)"
    by (simp add: re_optional_first_def)
  have b7: "1 \<le> (1 :: nat) \<and> 1 \<le> length [(- 1 :: int, - 1 :: int), (0, 1)]
      \<and> [(- 1 :: int, - 1 :: int), (0, 1)] ! (1 - 1) = (- 1, - 1)"
    by simp
  have e1: "Inr (orig_fs cfg_optional_first @ take (nat (1 + fst (0 :: int, 1 :: int))) ''/b''
                @ foldl (substitute_group (drop 1 ''/b'') [(- 1, - 1), (0, 1)]) (''x'' @ [backslash] @ ''1y'')
                    [1 ..< Suc (captures (filename_regexp ?first))]
                @ drop (nat (1 + snd (0 :: int, 1 :: int))) ''/b'') = (Inr ''/data/xy'' :: error + string)"
    by code_simp
  have e2: "string_replace (''x'' @ [backslash] @ ''1y'') (backslash # decimal 1) [] = ''xy''"
    by code_simp
  note t1 = unreported_group_token_aborts [OF a1 a2 a3 a4 a5, THEN conjunct1, THEN mp, OF a6]
  note t2 = unreported_group_token_aborts [OF b1 b2 b3 b4 b5, THEN conjunct2, THEN conjunct1, THEN mp, OF b6]
  note t3 = unreported_group_token_aborts [OF b1 b2 b3 b4 b5, THEN conjunct2, THEN conjunct2, THEN mp, OF b7,
      of  "''x'' @ [backslash] @ ''1y''"]
  have c: "captures re_optional_last = 1"
    by (simp add: re_optional_last_def)
  from t1 a3 c t2 [unfolded e1] b3 t3 [unfolded e2] show ?thesis
    by simp
qed

text \<open>
  Claim C6 as stated fails: with a pattern of no group, the token \<^verbatim>\<open>\1\<close> of the template
  \<^verbatim>\<open>bar\1\<close> is out of range and stays in the returned path; and the token \<^verbatim>\<open>\1\<close> of
  \<^verbatim>\<open>x\1y\<close> for group 1 of \<^verbatim>\<open>^(a)?(b)$\<close>, which did not take part in the match of
  \<^verbatim>\<open>b\<close>, is replaced by the empty string. Neither aborts.
\<close>

theorem bad_backreference_no_abort:
  "fst (rewrite cfg_out_of_range machine_os request0 ''/foo'' machine0)
     = Inr (''/data/bar'' @ [backslash] @ ''1'')
   \<and> captures (re_literal ''foo'') = 0
   \<and> fst (rewrite cfg_optional_first machine_os request0 ''/b'' machine0) = Inr ''/data/xy''
   \<and> matcher re_optional_first (drop 1 ''/b'') = Matched (0, 1) [(- 1, - 1), (0, 1)]"
  by code_simp

subsection \<open>The rewritten path\<close>

lemma string_replace_skip:
  "c \<noteq> backslash \<Longrightarrow>
   string_replace (c # s) (backslash # p) rep = c # string_replace s (backslash # p) rep"
  by simp

lemma string_replace_app:
  "backslash \<notin> set u \<Longrightarrow>
   string_replace (u @ s) (backslash # p) rep = u @ string_replace s (backslash # p) rep"
  by (induction u) simp_all

lemma string_replace_hit:
  "string_replace (backslash # d # s) [backslash, d] rep = rep @ string_replace s [backslash, d] rep"
  by simp

lemma string_replace_miss:
  "e \<noteq> d \<Longrightarrow>
   string_replace (backslash # e # s) [backslash, d] rep
     = backslash # string_replace (e # s) [backslash, d] rep"
  by simp

lemma string_replace_last: "string_replace [c] [backslash, d] rep = [c]"
  by simp

lemma spec_expand_template_literal:
  "d \<noteq> backslash \<Longrightarrow> spec_expand_template texts k (d # cs) = d # spec_expand_template texts k cs"
  by (cases cs) (simp_all add: spec_backreference_def)

lemma spec_expand_template_zero: "spec_expand_template texts 0 t = t"
  by (induction texts "0 :: nat" t rule: spec_expand_template.induct) (auto simp add: spec_backreference_def)

lemma of_char_digit_char: "n \<le> 9 \<Longrightarrow> (of_char (digit_char n) :: nat) = 48 + n"
  by (simp add: digit_char_def)

lemma digit_char_unique: "(of_char d :: nat) = 48 + n \<Longrightarrow> d = digit_char n"
  by (metis char_of_char digit_char_def)

lemma decimal_digit: "n < 10 \<Longrightarrow> decimal n = [digit_char n]"
  by (simp add: decimal.simps)

lemma digit_char_not_backslash: "n \<le> 9 \<Longrightarrow> digit_char n \<noteq> backslash"
proof
  assume "n \<le> 9" and "digit_char n = backslash"
  then have "(of_char (digit_char n) :: nat) = of_char backslash" by simp
  with \<open>n \<le> 9\<close> show False by (simp add: of_char_digit_char backslash_def)
qed

lemma no_double_backslash_tl: "no_double_backslash (c # cs) \<Longrightarrow> no_double_backslash cs"
  by (cases cs) simp_all

lemma expand_step:
  assumes k: "k < 9"
    and clean: "\<forall>i. 1 \<le> i \<and> i \<le> k \<longrightarrow> backslash \<notin> set (texts i)"
  shows "no_double_backslash t \<Longrightarrow>
     string_replace (spec_expand_template texts k t) [backslash, digit_char (Suc k)] (texts (Suc k))
       = spec_expand_template texts (Suc k) t"
proof (induction t rule: length_induct)
  case (1 t)
  let ?pat = "[backslash, digit_char (Suc k)]"
  let ?rep = "texts (Suc k)"
  have IH: "string_replace (spec_expand_template texts k u) ?pat ?rep = spec_expand_template texts (Suc k) u"
    if "length u < length t" "no_double_backslash u" for u
    using 1 that by blast
  have dk: "digit_char (Suc k) \<noteq> backslash"
    using k by (intro digit_char_not_backslash) simp
  show ?case
  proof (cases t)
    case Nil
    then show ?thesis by simp
  next
    case (Cons c t')
    show ?thesis
    proof (cases t')
      case Nil
      with Cons show ?thesis by simp
    next
      case (Cons d cs)
      note t = \<open>t = c # t'\<close> \<open>t' = d # cs\<close>
      have nd_cs: "no_double_backslash cs" and nd_t': "no_double_backslash (d # cs)"
        using "1.prems" t by (auto dest: no_double_backslash_tl)
      consider (old) "spec_backreference k c d"
        | (new) "\<not> spec_backreference k c d" "spec_backreference (Suc k) c d"
        | (none) "\<not> spec_backreference (Suc k) c d"
        by blast
      then show ?thesis
      proof cases
        case old
        then have n: "1 \<le> (of_char d :: nat) - 48" "(of_char d :: nat) - 48 \<le> k"
          by (auto simp: spec_backreference_def)
        then have "backslash \<notin> set (texts (of_char d - 48))"
          using clean by blast
        moreover have "spec_backreference (Suc k) c d"
          using old by (simp add: spec_backreference_def)
        ultimately show ?thesis
          using old IH [of cs] nd_cs t
          by (simp add: string_replace_app del: string_replace.simps)
      next
        case new
        then have c: "c = backslash" and d: "d = digit_char (Suc k)"
          using k by (auto simp: spec_backreference_def intro!: digit_char_unique)
        have v: "(of_char d :: nat) - 48 = Suc k"
          using d k by (simp add: of_char_digit_char)
        have "spec_expand_template texts k (d # cs) = d # spec_expand_template texts k cs"
          using dk d by (intro spec_expand_template_literal) simp
        moreover have "spec_expand_template texts k t = backslash # spec_expand_template texts k (d # cs)"
          using new(1) t c by simp
        ultimately have "spec_expand_template texts k t = backslash # d # spec_expand_template texts k cs"
          by simp
        then show ?thesis
          using new(2) IH [of cs] nd_cs t d v
          by (simp add: string_replace_hit del: string_replace.simps)
      next
        case none
        then have old: "\<not> spec_backreference k c d"
          by (auto simp: spec_backreference_def)
        show ?thesis
        proof (cases "c = backslash")
          case True
          then have dn: "d \<noteq> backslash"
            using "1.prems" t by simp
          have dd: "d \<noteq> digit_char (Suc k)"
            using none True k by (auto simp: spec_backreference_def of_char_digit_char)
          have lit: "spec_expand_template texts k (d # cs) = d # spec_expand_template texts k cs"
            using dn by (rule spec_expand_template_literal)
          moreover have "spec_expand_template texts k t = backslash # spec_expand_template texts k (d # cs)"
            using old t True by simp
          ultimately have "spec_expand_template texts k t = backslash # d # spec_expand_template texts k cs"
            by simp
          with lit show ?thesis
            using none IH [of "d # cs"] nd_t' t dd True
            by (simp add: string_replace_miss del: string_replace.simps)
        next
          case False
          then show ?thesis
            using none old IH [of "d # cs"] nd_t' t
            by (simp add: string_replace_skip del: string_replace.simps)
        qed
      qed
    qed
  qed
qed

lemma successive_replacement_is_scan:
  assumes "n \<le> 9"
    and "\<forall>i. 1 \<le> i \<and> i \<le> n \<longrightarrow> backslash \<notin> set (texts i)"
    and "no_double_backslash t"
  shows "foldl (\<lambda>acc i. string_replace acc (backslash # decimal i) (texts i)) t [1 ..< Suc n]
         = spec_expand_template texts n t"
  using assms(1,2)
proof (induction n)
  case 0
  show ?case by (simp add: spec_expand_template_zero)
next
  case (Suc k)
  then have k: "k < 9" and clean: "\<forall>i. 1 \<le> i \<and> i \<le> k \<longrightarrow> backslash \<notin> set (texts i)"
    by simp_all
  have IH: "foldl (\<lambda>acc i. string_replace acc (backslash # decimal i) (texts i)) t [1 ..< Suc k]
         = spec_expand_template texts k t"
    using Suc.IH k clean by simp
  have "[1 ..< Suc (Suc k)] = [1 ..< Suc k] @ [Suc k]"
    by simp
  then have "foldl (\<lambda>acc i. string_replace acc (backslash # decimal i) (texts i)) t [1 ..< Suc (Suc k)]
      = string_replace (spec_expand_template texts k t) (backslash # decimal (Suc k)) (texts (Suc k))"
    using IH by (simp only: foldl_append foldl.simps)
  also have "\<dots> = spec_expand_template texts (Suc k) t"
    using expand_step [OF k clean assms(3)] k by (simp add: decimal_digit)
  finally show ?case .
qed

text \<open>
  Claim C1, amended. Let \<^verbatim>\<open>rewrite\<close> pass to \<^verbatim>\<open>apply_rule\<close> a rule with a template, whose
  pattern has at most nine groups and matches with offsets \<open>(s, e)\<close>, every group being
  reported; let no group's text hold a backslash and the template hold no two adjacent
  backslashes. Then the returned path is the root, the request path up to and including
  offset \<open>s\<close>, the template expanded in one scan from left to right (every token
  \<^verbatim>\<open>\N\<close> replaced by the text of group N), and the request path from offset \<open>e + 1\<close> on.
  The spec's example is the witness. Without these conditions the code's successive
  replacement of \<^verbatim>\<open>\1\<close>, \<^verbatim>\<open>\2\<close>, ... differs from the scan, or aborts.
\<close>

theorem rewritten_path_expands_template:
  assumes "snd (rewrite_contexts cfg os fc w path None (contexts cfg)) = Some r"
    and "rewritten_path r = Some t"
    and "matcher (filename_regexp r) (drop 1 path) = Matched (s, e) groups"
    and "length groups = captures (filename_regexp r)"
    and "captures (filename_regexp r) \<le> 9"
    and "\<forall>p \<in> set groups. fst p \<le> snd p \<and> backslash \<notin> set (group_text (drop 1 path) p)"
    and "no_double_backslash t"
  shows "fst (rewrite cfg os fc path w)
     = Inr (orig_fs cfg @ take (nat (1 + s)) path
            @ spec_expand_template (\<lambda>N. group_text (drop 1 path) (groups ! (N - 1)))
                (captures (filename_regexp r)) t
            @ drop (nat (1 + e)) path)"
proof -
  let ?n = "captures (filename_regexp r)"
  let ?text = "\<lambda>N. group_text (drop 1 path) (groups ! (N - 1))"
  have ord: "\<forall>p \<in> set groups. fst p \<le> snd p"
    using assms(6) by blast
  have clean: "\<forall>i. 1 \<le> i \<and> i \<le> ?n \<longrightarrow> backslash \<notin> set (?text i)"
  proof (intro allI impI)
    fix i assume "1 \<le> i \<and> i \<le> ?n"
    then have "i - 1 < length groups"
      using assms(4) by linarith
    then have "groups ! (i - 1) \<in> set groups"
      by (rule nth_mem)
    then show "backslash \<notin> set (?text i)"
      using assms(6) by blast
  qed
  have "substitute_group (drop 1 path) groups = (\<lambda>acc i. string_replace acc (backslash # decimal i) (?text i))"
    by (intro ext) (simp add: substitute_group_def)
  then have "foldl (substitute_group (drop 1 path) groups) t [1 ..< Suc ?n] = spec_expand_template ?text ?n t"
    using successive_replacement_is_scan [OF assms(5) clean assms(7)] by simp
  then show ?thesis
    using fst_apply_rule_matched [OF assms(2,3,4) ord, of cfg os fc w] assms(1)
    by (simp add: fst_rewrite)
qed

theorem rewritten_path_expands_template_witness:
  "fst (rewrite cfg_example machine_os request0 ''/foo/baz/qux'' machine0) = Inr ''/data/bar/baz/qux''"
proof -
  have h1: "snd (rewrite_contexts cfg_example machine_os request0 machine0 ''/foo/baz/qux'' None
              (contexts cfg_example)) = Some rule_foo"
    by (simp add: cfg_example_def one_rule_def rule_foo_def re_foo_rest_def match_foo_rest_def pcre_exec_def PCRE_ERROR_NOMATCH_def DEBUG_def newline_def)
  have h2: "rewritten_path rule_foo = Some (''bar/'' @ [backslash] @ ''1'')"
    by (simp add: rule_foo_def)
  have h3: "matcher (filename_regexp rule_foo) (drop 1 ''/foo/baz/qux'') = Matched (0, 11) [(4, 11)]"
    by (simp add: cfg_example_def one_rule_def rule_foo_def re_foo_rest_def match_foo_rest_def pcre_exec_def PCRE_ERROR_NOMATCH_def DEBUG_def newline_def)
  have h4: "length [(4 :: int, 11 :: int)] = captures (filename_regexp rule_foo)"
    by (simp add: rule_foo_def re_foo_rest_def)
  have h5: "captures (filename_regexp rule_foo) \<le> 9"
    by (simp add: rule_foo_def re_foo_rest_def)
  have h6: "\<forall>p \<in> set [(4 :: int, 11 :: int)].
      fst p \<le> snd p \<and> backslash \<notin> set (group_text (drop 1 ''/foo/baz/qux'') p)"
    by code_simp
  have h7: "no_double_backslash (''bar/'' @ [backslash] @ ''1'')"
    by code_simp
  have "Inr (orig_fs cfg_example @ take (nat (1 + 0)) ''/foo/baz/qux''
            @ spec_expand_template (\<lambda>N. group_text (drop 1 ''/foo/baz/qux'') ([(4, 11)] ! (N - 1)))
                (captures (filename_regexp rule_foo)) (''bar/'' @ [backslash] @ ''1'')
            @ drop (nat (1 + 11)) ''/foo/baz/qux'') = (Inr ''/data/bar/baz/qux'' :: error + string)"
    by code_simp
  with rewritten_path_expands_template [OF h1 h2 h3 h4 h5 h6 h7] show ?thesis
    by simp
qed

text \<open>
  Claim C1 as stated fails: the text \<^verbatim>\<open>\2\<close> that group 1 matched is replaced again in the
  round of group 2 (the scan of the template \<^verbatim>\<open>\1\<close> gives \<^verbatim>\<open>/data/\2\<close>); after the
  template \<^verbatim>\<open>\\1\<close> followed by \<^verbatim>\<open>2\<close> the empty text of group 1 joins a backslash to the
  \<^verbatim>\<open>2\<close>; with ten groups \<^verbatim>\<open>\10\<close> becomes the text of group 1 and a \<^verbatim>\<open>0\<close>, not the text
  \<^verbatim>\<open>j\<close> of group 10; and when the last group did not take part the call aborts, though
  the template \<^verbatim>\<open>x\<close> names no group.
\<close>

theorem rewritten_path_not_single_scan:
  "fst (rewrite cfg_token machine_os request0 path_token machine0) = Inr ''/data/x''
   \<and> matcher (re_groups [[backslash, CHR ''2''], ''x''] []) (drop 1 path_token) = Matched (0, 3) [(0, 2), (2, 3)]
   \<and> orig_fs cfg_token @ take (nat (1 + 0)) path_token
        @ spec_expand_template (\<lambda>N. group_text (drop 1 path_token) ([(0, 2), (2, 3)] ! (N - 1))) 2 [backslash, CHR ''1'']
        @ drop (nat (1 + 3)) path_token
       = ''/data/'' @ [backslash, CHR ''2'']
   \<and> fst (rewrite cfg_double machine_os request0 ''/y'' machine0) = Inr ''/data/y''
   \<and> matcher (re_groups [[], ''y''] []) (drop 1 ''/y'') = Matched (0, 1) [(0, 0), (0, 1)]
   \<and> orig_fs cfg_double @ take (nat (1 + 0)) ''/y''
        @ spec_expand_template (\<lambda>N. group_text (drop 1 ''/y'') ([(0, 0), (0, 1)] ! (N - 1))) 2
            [backslash, backslash, CHR ''1'', CHR ''2'']
        @ drop (nat (1 + 1)) ''/y''
       = ''/data/'' @ [backslash, CHR ''2'']
   \<and> fst (rewrite cfg_ten machine_os request0 ''/abcdefghij'' machine0) = Inr ''/data/a0''
   \<and> fst (rewrite cfg_optional_last machine_os request0 ''/a'' machine0) = Inl Assertion_failed"
  by code_simp

subsection \<open>The parser\<close>

lemma parse_string_loop_first_separator:
  assumes "sep \<noteq> of_char backslash"
  shows "parse_string_loop fd sep escaped str =
     (if \<exists>c \<in> set fd. of_char c = sep
      then Inr (str @ takeWhile (\<lambda>c. of_char c \<noteq> sep) fd, tl (dropWhile (\<lambda>c. of_char c \<noteq> sep) fd))
      else Inl Unexpected_EOF)"
proof (induction fd arbitrary: escaped str)
  case Nil
  show ?case by simp
next
  case (Cons c fd)
  show ?case
    using assms Cons.IH by (auto simp: Let_def)
qed

text \<open>
  Claim C5. The code does not do what the claim and its own comment say: in the
  configuration line \<^verbatim>\<open>/a\/b/ x\<close> the delimiter after the backslash ends the literal,
  whose body is \<^verbatim>\<open>a\\<close>, and the next byte \<^verbatim>\<open>b\<close> is refused as a flag. (The lemma
  before shows it for every delimiter but the backslash.)
\<close>

theorem escaped_delimiter_ends_literal:
  "parse_string (''a'' @ [backslash] @ ''/b/ x'' @ [newline]) (of_char (CHR ''/''))
     = Inr (''a'' @ [backslash], ''b/ x'' @ [newline])
   \<and> parse_config pcre_compile (''/a'' @ [backslash] @ ''/b/ x'' @ [newline])
     = Inl (Unknown_flag (of_char (CHR ''b'')))"
  by (simp add: parse_string_def parse_config_def parse_config_loop.simps parse_item.simps
        parse_regexp_def determine_separator_def isspace_def to_char_def EOF_def
        backslash_def newline_def Let_def)

subsection \<open>Startup\<close>

lemma strncmp_prefix: "strncmp s1 s2 (length s2) = 0 \<longleftrightarrow> prefix s2 s1"
  by (induction s1 s2 "length s2" arbitrary: rule: strncmp.induct) auto

text \<open>
  Claim C7, amended. With a source directory that can be opened, a mount point and a
  configuration file, \<^verbatim>\<open>parse_args\<close> ends with "configuration file must not be located
  inside the mount point" exactly when the mount point is a prefix, byte by byte, of the
  path of the configuration file.
\<close>

theorem config_inside_mount_point_iff:
  assumes "arg_orig_fs args = Some source"
    and "os_canonicalize_file_name os source w = Some canonical"
    and "arg_mount_point args = Some mount"
    and "arg_config_file args = Some file"
  shows "parse_args pcre_compile os args w = Inl Config_inside_mount_point \<longleftrightarrow> prefix mount file"
  using assms
  by (auto simp: parse_args_def strncmp_prefix Let_def split: option.splits sum.splits)

theorem config_inside_mount_point_iff_witness:
  "parse_args literal_compiler machine_os args_inside machine_config = Inl Config_inside_mount_point
   \<and> parse_args literal_compiler machine_os args_beside machine_config \<noteq> Inl Config_inside_mount_point"
proof -
  have a: "arg_orig_fs args_inside = Some ''/data''" "arg_mount_point args_inside = Some ''/mnt/fs''"
    "arg_config_file args_inside = Some ''/mnt/fs/rules''"
    by (simp_all add: args_inside_def)
  have b: "arg_orig_fs args_beside = Some ''/data''" "arg_mount_point args_beside = Some ''/mnt/fs''"
    "arg_config_file args_beside = Some ''/mnt''"
    by (simp_all add: args_beside_def)
  have c: "os_canonicalize_file_name machine_os ''/data'' machine_config = Some ''/data''"
    by (simp add: machine_os_def)
  from config_inside_mount_point_iff [OF a(1) c a(2) a(3)] config_inside_mount_point_iff [OF b(1) c b(2) b(3)]
  show ?thesis by simp
qed

text \<open>
  Claim C7 as stated fails: the configuration file \<^verbatim>\<open>/mnt\<close> is a prefix of the mount
  point \<^verbatim>\<open>/mnt/fs\<close> and startup succeeds; \<^verbatim>\<open>/mnt/fs/rules\<close> is no prefix of the mount
  point and startup is refused.
\<close>

theorem config_prefix_of_mount_point_accepted:
  "prefix ''/mnt'' ''/mnt/fs''
   \<and> \<not> isl (parse_args literal_compiler machine_os args_beside machine_config)
   \<and> \<not> prefix ''/mnt/fs/rules'' ''/mnt/fs''
   \<and> isl (parse_args literal_compiler machine_os args_inside machine_config)"
  by code_simp

subsection \<open>The command line of the caller\<close>

lemma NUL_to_space:
  "\<forall>a \<in> set argv. NUL \<notin> set a \<Longrightarrow>
   map (\<lambda>c. if c = NUL then CHR '' '' else c) (proc_cmdline argv) = concat (map (\<lambda>a. a @ '' '') argv)"
proof (induction argv)
  case Nil
  show ?case by (simp add: proc_cmdline_def)
next
  case (Cons a argv)
  have "map (\<lambda>c. if c = NUL then CHR '' '' else c) a = a"
    using Cons.prems by (intro map_idI) auto
  then show ?case
    using Cons by (simp add: proc_cmdline_def)
qed

text \<open>
  Claim C8, amended. The string that the contexts' patterns are matched against is the
  result of \<^verbatim>\<open>get_caller_cmdline\<close>. When \<^verbatim>\<open>/proc/<pid>/cmdline\<close> holds the arguments, each
  followed by a NUL, it is the arguments each followed by one space, the last one too;
  when the file cannot be opened it is the empty string, no error is raised, and a
  context whose pattern does not match the empty string is skipped.
\<close>

theorem caller_cmdline_is_file_with_spaces:
  "(os_fopen os (''/proc/'' @ show_int (pid fc) @ ''/cmdline'') w = Some (proc_cmdline argv)
      \<and> (\<forall>a \<in> set argv. NUL \<notin> set a)
      \<longrightarrow> get_caller_cmdline os fc w = concat (map (\<lambda>a. a @ '' '') argv))
   \<and> (os_fopen os (''/proc/'' @ show_int (pid fc) @ ''/cmdline'') w = None
      \<longrightarrow> get_caller_cmdline os fc w = [])
   \<and> rewrite_contexts cfg os fc w path None cs
       = rewrite_contexts cfg os fc w path (Some (get_caller_cmdline os fc w)) cs
   \<and> (os_fopen os (''/proc/'' @ show_int (pid fc) @ ''/cmdline'') w = None
        \<and> cmdline ctx = Some re \<and> \<not> matches re []
      \<longrightarrow> snd (rewrite_contexts cfg os fc w path None (ctx # cs))
           = snd (rewrite_contexts cfg os fc w path None cs))"
proof (intro conjI impI)
  assume "os_fopen os (''/proc/'' @ show_int (pid fc) @ ''/cmdline'') w = Some (proc_cmdline argv)
      \<and> (\<forall>a \<in> set argv. NUL \<notin> set a)"
  then show "get_caller_cmdline os fc w = concat (map (\<lambda>a. a @ '' '') argv)"
    by (simp add: get_caller_cmdline_def NUL_to_space)
next
  assume "os_fopen os (''/proc/'' @ show_int (pid fc) @ ''/cmdline'') w = None"
  then show "get_caller_cmdline os fc w = []"
    by (simp add: get_caller_cmdline_def)
next
  show "rewrite_contexts cfg os fc w path None cs
       = rewrite_contexts cfg os fc w path (Some (get_caller_cmdline os fc w)) cs"
    by (rule rewrite_contexts_caller)
next
  assume a: "os_fopen os (''/proc/'' @ show_int (pid fc) @ ''/cmdline'') w = None
        \<and> cmdline ctx = Some re \<and> \<not> matches re []"
  then have "get_caller_cmdline os fc w = []"
    by (simp add: get_caller_cmdline_def)
  with a show "snd (rewrite_contexts cfg os fc w path None (ctx # cs))
           = snd (rewrite_contexts cfg os fc w path None cs)"
    by (simp add: matches_def Let_def rewrite_contexts_caller [of _ _ _ _ _ cs] split: prod.splits)
qed

theorem caller_cmdline_is_file_with_spaces_witness:
  "get_caller_cmdline machine_os request0 machine_ls = ''ls -l ''
   \<and> get_caller_cmdline machine_os request0 machine0 = []
   \<and> snd (rewrite_contexts cfg_fall machine_os request0 machine0 ''/foo/x'' None [ctx_myapp, ctx_last])
       = Some rule_foo2"
proof -
  note t = caller_cmdline_is_file_with_spaces
  have h1: "os_fopen machine_os (''/proc/'' @ show_int (pid request0) @ ''/cmdline'') machine_ls
      = Some (proc_cmdline [''ls'', ''-l'']) \<and> (\<forall>a \<in> set [''ls'', ''-l'']. NUL \<notin> set a)"
    by code_simp
  have h2: "os_fopen machine_os (''/proc/'' @ show_int (pid request0) @ ''/cmdline'') machine0 = None"
    by code_simp
  have h3: "os_fopen machine_os (''/proc/'' @ show_int (pid request0) @ ''/cmdline'') machine0 = None
        \<and> cmdline ctx_myapp = Some (re_starts_with ''myapp'') \<and> \<not> matches (re_starts_with ''myapp'') []"
    using h2 by (simp add: ctx_myapp_def matches_def pcre_exec_def re_starts_with_def
        match_starts_with_def PCRE_ERROR_NOMATCH_def)
  have r: "snd (rewrite_contexts cfg_fall machine_os request0 machine0 ''/foo/x'' None [ctx_last]) = Some rule_foo2"
    by (simp add: cfg_fall_def ctx_last_def rule_foo2_def re_foo_rest_def match_foo_rest_def
          pcre_exec_def DEBUG_def newline_def PCRE_ERROR_NOMATCH_def)
  from t [where os = machine_os and fc = request0 and w = machine_ls and argv = "[''ls'', ''-l'']",
      THEN conjunct1, THEN mp, OF h1]
  have "get_caller_cmdline machine_os request0 machine_ls = ''ls -l ''"
    by simp
  moreover from t [where os = machine_os and fc = request0 and w = machine0,
      THEN conjunct2, THEN conjunct1, THEN mp, OF h2]
  have "get_caller_cmdline machine_os request0 machine0 = []" .
  moreover from t [where os = machine_os and fc = request0 and w = machine0 and cfg = cfg_fall
        and path = "''/foo/x''" and cs = "[ctx_last]" and ctx = ctx_myapp
        and re = "re_starts_with ''myapp''",
      THEN conjunct2, THEN conjunct2, THEN conjunct2, THEN mp, OF h3] r
  have "snd (rewrite_contexts cfg_fall machine_os request0 machine0 ''/foo/x'' None [ctx_myapp, ctx_last])
       = Some rule_foo2"
    by simp
  ultimately show ?thesis by blast
qed

text \<open>
  Claim C8 as stated fails: for the caller \<^verbatim>\<open>ls -l\<close> the string ends with a space, which
  joining the arguments does not give; and when the file cannot be opened, a context
  whose pattern \<^verbatim>\<open>^\<close> matches the empty string is entered and its rule rewrites.
\<close>

theorem caller_cmdline_trailing_space:
  "get_caller_cmdline machine_os request0 machine_ls = ''ls -l ''
   \<and> spec_join_arguments [''ls'', ''-l''] = ''ls -l''
   \<and> get_caller_cmdline machine_os request0 machine0 = []
   \<and> fst (rewrite cfg_any_caller machine_os request0 ''/foo/x'' machine0) = Inr ''/data/bar/x''"
  by code_simp

end
